theory Spec2Isabelle
  imports Complex_Main
begin

section \<open>Double-precision values\<close>

text \<open>
  A C++ \<open>double\<close> is modelled as a real number or one of the three IEEE special values.
  Arithmetic on finite values is exact (no rounding, no overflow, no underflow); the
  special values follow IEEE 754: an undefined operation (\<open>0/0\<close>, \<open>\<infinity> - \<infinity>\<close>,
  \<open>0 * \<infinity>\<close>) yields \<open>NaN\<close>, \<open>NaN\<close> propagates through every arithmetic operation, and
  every ordered comparison with \<open>NaN\<close> is false. The two signed zeros are one value
  \<open>Finite 0\<close>; as a divisor it stands for \<open>+0\<close>. The only divisor of the program is a
  sum of squares started from \<open>0.0\<close>, which is never \<open>-0\<close>.
\<close>

datatype dbl = Finite real | PosInf | NegInf | NaN

definition inf_of_sign :: "real \<Rightarrow> dbl" where
  "inf_of_sign s = (if 0 < s then PosInf else if s < 0 then NegInf else NaN)"

fun dneg :: "dbl \<Rightarrow> dbl" where
  "dneg (Finite a) = Finite (- a)"
| "dneg PosInf = NegInf"
| "dneg NegInf = PosInf"
| "dneg NaN = NaN"

fun dadd :: "dbl \<Rightarrow> dbl \<Rightarrow> dbl" where
  "dadd (Finite a) (Finite b) = Finite (a + b)"
| "dadd NaN _ = NaN"
| "dadd _ NaN = NaN"
| "dadd PosInf NegInf = NaN"
| "dadd NegInf PosInf = NaN"
| "dadd PosInf _ = PosInf"
| "dadd _ PosInf = PosInf"
| "dadd NegInf _ = NegInf"
| "dadd _ NegInf = NegInf"

definition dsub :: "dbl \<Rightarrow> dbl \<Rightarrow> dbl" where
  "dsub a b = dadd a (dneg b)"

fun dmul :: "dbl \<Rightarrow> dbl \<Rightarrow> dbl" where
  "dmul (Finite a) (Finite b) = Finite (a * b)"
| "dmul NaN _ = NaN"
| "dmul _ NaN = NaN"
| "dmul PosInf (Finite b) = inf_of_sign b"
| "dmul NegInf (Finite b) = inf_of_sign (- b)"
| "dmul (Finite a) PosInf = inf_of_sign a"
| "dmul (Finite a) NegInf = inf_of_sign (- a)"
| "dmul PosInf PosInf = PosInf"
| "dmul PosInf NegInf = NegInf"
| "dmul NegInf PosInf = NegInf"
| "dmul NegInf NegInf = PosInf"

fun ddiv :: "dbl \<Rightarrow> dbl \<Rightarrow> dbl" where
  "ddiv (Finite a) (Finite b) = (if b = 0 then inf_of_sign a else Finite (a / b))"
| "ddiv NaN _ = NaN"
| "ddiv _ NaN = NaN"
| "ddiv (Finite a) PosInf = Finite 0"
| "ddiv (Finite a) NegInf = Finite 0"
| "ddiv PosInf (Finite b) = (if 0 \<le> b then PosInf else NegInf)"
| "ddiv NegInf (Finite b) = (if 0 \<le> b then NegInf else PosInf)"
| "ddiv PosInf PosInf = NaN"
| "ddiv PosInf NegInf = NaN"
| "ddiv NegInf PosInf = NaN"
| "ddiv NegInf NegInf = NaN"

text \<open>\<open>dless a b\<close> is the C++ comparison \<open>a < b\<close>; \<open>a > b\<close> is \<open>dless b a\<close>.\<close>

fun dless :: "dbl \<Rightarrow> dbl \<Rightarrow> bool" where
  "dless (Finite a) (Finite b) = (a < b)"
| "dless NaN _ = False"
| "dless _ NaN = False"
| "dless _ NegInf = False"
| "dless PosInf _ = False"
| "dless NegInf _ = True"
| "dless _ PosInf = True"

text \<open>\<open>std::abs\<close> on doubles.\<close>

fun dabs :: "dbl \<Rightarrow> dbl" where
  "dabs (Finite a) = Finite \<bar>a\<bar>"
| "dabs PosInf = PosInf"
| "dabs NegInf = PosInf"
| "dabs NaN = NaN"

text \<open>\<open>std::max(a, b)\<close> is \<open>(a < b) ? b : a\<close>.\<close>

definition dmax :: "dbl \<Rightarrow> dbl \<Rightarrow> dbl" where
  "dmax a b = (if dless a b then b else a)"


section \<open>The soft-thresholding operator\<close>

text \<open>Lines 9 to 13 of \<open>lasso_cda.cpp\<close>.\<close>

definition soft_threshold :: "dbl \<Rightarrow> dbl \<Rightarrow> dbl" where
  "soft_threshold z lambda =
     (if dless lambda z then dsub z lambda
      else if dless z (dneg lambda) then dadd z lambda
      else Finite 0)"


section \<open>R vectors on a heap\<close>

text \<open>
  An Rcpp \<open>NumericVector\<close> or \<open>NumericMatrix\<close> is a handle on an R object; copying a
  handle shares the object and writing through a handle changes it for every holder.
  The heap is the list of the objects' buffers and an address is an index into it.
  A new object is appended at the end. A matrix is stored column by column in one
  buffer and carries its dimensions.

  Rcpp's element access raises no error: a read or a write past the end of a buffer is
  undefined behaviour in C++. The model makes it the outcome \<open>Out_Of_Bounds\<close>, which
  is not an exception of the program (the program raises none). A handle is taken to
  point to an object of the heap, as every handle that R passes does.
\<close>

datatype error = Out_Of_Bounds

type_synonym addr = nat
type_synonym heap = "dbl list list"

record NumericMatrix =
  sexp :: addr
  nrow :: nat
  ncol :: nat

definition alloc :: "heap \<Rightarrow> dbl list \<Rightarrow> heap \<times> addr" where
  "alloc h v = (h @ [v], length h)"

definition vec_get :: "heap \<Rightarrow> addr \<Rightarrow> nat \<Rightarrow> error + dbl" where
  "vec_get h a i = (if i < length (h ! a) then Inr (h ! a ! i) else Inl Out_Of_Bounds)"

definition vec_set :: "heap \<Rightarrow> addr \<Rightarrow> nat \<Rightarrow> dbl \<Rightarrow> error + heap" where
  "vec_set h a i v =
     (if i < length (h ! a) then Inr (h[a := (h ! a)[i := v]]) else Inl Out_Of_Bounds)"

text \<open>\<open>X(i, j)\<close> reads element \<open>i + j * nrow\<close> of the matrix's buffer.\<close>

definition mat_get :: "heap \<Rightarrow> NumericMatrix \<Rightarrow> nat \<Rightarrow> nat \<Rightarrow> error + dbl" where
  "mat_get h X i j = vec_get h (sexp X) (i + j * nrow X)"


section \<open>Rcpp sugar expressions\<close>

text \<open>
  \<open>a * b\<close>, \<open>a * c\<close> and \<open>a + b\<close> on vectors build expression objects that hold their
  operands and compute element \<open>i\<close> on demand; the size of each is the size of its
  left operand. \<open>sum\<close> adds the elements from index 0 upwards, starting from 0.
  Assigning an expression of the size of the target writes the elements into the
  target's buffer in ascending order, each computed when it is written.
\<close>

datatype sugar =
    Vec addr
  | Times_Vector_Vector sugar sugar
  | Times_Vector_Primitive sugar dbl
  | Plus_Vector_Vector sugar sugar

fun sugar_size :: "heap \<Rightarrow> sugar \<Rightarrow> nat" where
  "sugar_size h (Vec a) = length (h ! a)"
| "sugar_size h (Times_Vector_Vector lhs rhs) = sugar_size h lhs"
| "sugar_size h (Times_Vector_Primitive lhs c) = sugar_size h lhs"
| "sugar_size h (Plus_Vector_Vector lhs rhs) = sugar_size h lhs"

fun sugar_elem :: "heap \<Rightarrow> sugar \<Rightarrow> nat \<Rightarrow> error + dbl" where
  "sugar_elem h (Vec a) i = vec_get h a i"
| "sugar_elem h (Times_Vector_Vector lhs rhs) i =
     (case sugar_elem h lhs i of Inl e \<Rightarrow> Inl e | Inr x \<Rightarrow>
      case sugar_elem h rhs i of Inl e \<Rightarrow> Inl e | Inr y \<Rightarrow> Inr (dmul x y))"
| "sugar_elem h (Times_Vector_Primitive lhs c) i =
     (case sugar_elem h lhs i of Inl e \<Rightarrow> Inl e | Inr x \<Rightarrow> Inr (dmul x c))"
| "sugar_elem h (Plus_Vector_Vector lhs rhs) i =
     (case sugar_elem h lhs i of Inl e \<Rightarrow> Inl e | Inr x \<Rightarrow>
      case sugar_elem h rhs i of Inl e \<Rightarrow> Inl e | Inr y \<Rightarrow> Inr (dadd x y))"

function sum_loop :: "heap \<Rightarrow> sugar \<Rightarrow> nat \<Rightarrow> nat \<Rightarrow> dbl \<Rightarrow> error + dbl" where
  "sum_loop h e n i result =
     (if i < n then
        (case sugar_elem h e i of Inl er \<Rightarrow> Inl er
         | Inr current \<Rightarrow> sum_loop h e n (i + 1) (dadd result current))
      else Inr result)"
  by pat_completeness auto
termination
  by (relation "measure (\<lambda>(h, e, n, i, result). n - i)") auto

definition sugar_sum :: "heap \<Rightarrow> sugar \<Rightarrow> error + dbl" where
  "sugar_sum h e = sum_loop h e (sugar_size h e) 0 (Finite 0)"

function import_loop :: "addr \<Rightarrow> sugar \<Rightarrow> nat \<Rightarrow> nat \<Rightarrow> heap \<Rightarrow> error + heap" where
  "import_loop a e n i h =
     (if i < n then
        (case sugar_elem h e i of Inl er \<Rightarrow> Inl er
         | Inr v \<Rightarrow>
            (case vec_set h a i v of Inl er \<Rightarrow> Inl er
             | Inr h' \<Rightarrow> import_loop a e n (i + 1) h'))
      else Inr h)"
  by pat_completeness auto
termination
  by (relation "measure (\<lambda>(a, e, n, i, h). n - i)") auto

text \<open>
  \<open>a = e\<close> for an expression \<open>e\<close> whose size is the size of \<open>a\<close>. (Rcpp allocates a new
  object when the sizes differ; the one assignment of the program, \<open>r = r + ...\<close>,
  has the size of \<open>r\<close> on both sides.)
\<close>

definition assign_sugar :: "heap \<Rightarrow> addr \<Rightarrow> sugar \<Rightarrow> error + heap" where
  "assign_sugar h a e = import_loop a e (length (h ! a)) 0 h"


section \<open>The coordinate descent driver\<close>

text \<open>Lines 46 to 48: the loop that copies column \<open>j\<close> of \<open>X\<close> into \<open>X_j\<close>.\<close>

function column_loop ::
  "NumericMatrix \<Rightarrow> addr \<Rightarrow> nat \<Rightarrow> nat \<Rightarrow> nat \<Rightarrow> heap \<Rightarrow> error + heap" where
  "column_loop X X_j n j i h =
     (if i < n then
        (case mat_get h X i j of Inl e \<Rightarrow> Inl e
         | Inr v \<Rightarrow>
            (case vec_set h X_j i v of Inl e \<Rightarrow> Inl e
             | Inr h' \<Rightarrow> column_loop X X_j n j (i + 1) h'))
      else Inr h)"
  by pat_completeness auto
termination
  by (relation "measure (\<lambda>(X, X_j, n, j, i, h). n - i)") auto

text \<open>
  Lines 51 to 61: the two actual arguments of the call of \<open>soft_threshold\<close>,
  \<open>rho / X_j_norm2\<close> and \<open>lambda / X_j_norm2\<close>.
\<close>

definition threshold_args ::
  "heap \<Rightarrow> dbl \<Rightarrow> addr \<Rightarrow> addr \<Rightarrow> addr \<Rightarrow> nat \<Rightarrow> error + dbl \<times> dbl" where
  "threshold_args h lambda beta X_j r j =
     (case sugar_sum h (Times_Vector_Vector (Vec X_j) (Vec X_j)) of Inl e \<Rightarrow> Inl e
      | Inr X_j_norm2 \<Rightarrow>
     (case sugar_sum h (Times_Vector_Vector (Vec X_j) (Vec r)) of Inl e \<Rightarrow> Inl e
      | Inr X_j_r \<Rightarrow>
     (case vec_get h beta j of Inl e \<Rightarrow> Inl e
      | Inr beta_j \<Rightarrow>
         (let rho = dadd X_j_r (dmul X_j_norm2 beta_j)
          in Inr (ddiv rho X_j_norm2, ddiv lambda X_j_norm2)))))"

text \<open>
  Lines 44 to 70: the body of the loop over the coordinates. The state is the heap and
  the local \<open>max_change\<close>; \<open>beta\<close>, \<open>X_j\<close> and \<open>r\<close> are the handles of the three local
  vectors.
\<close>

definition coordinate_update ::
  "NumericMatrix \<Rightarrow> dbl \<Rightarrow> addr \<Rightarrow> addr \<Rightarrow> addr \<Rightarrow> nat \<Rightarrow> nat \<Rightarrow> heap \<times> dbl
     \<Rightarrow> error + heap \<times> dbl" where
  "coordinate_update X lambda beta X_j r n j s =
     (case s of (h, max_change) \<Rightarrow>
     (case column_loop X X_j n j 0 h of Inl e \<Rightarrow> Inl e
      | Inr h1 \<Rightarrow>
     (case threshold_args h1 lambda beta X_j r j of Inl e \<Rightarrow> Inl e
      | Inr (z, l) \<Rightarrow>
     (case vec_get h1 beta j of Inl e \<Rightarrow> Inl e
      | Inr beta_old \<Rightarrow>
     (case vec_set h1 beta j (soft_threshold z l) of Inl e \<Rightarrow> Inl e
      | Inr h2 \<Rightarrow>
     (case vec_get h2 beta j of Inl e \<Rightarrow> Inl e
      | Inr beta_j \<Rightarrow>
     (case assign_sugar h2 r
             (Plus_Vector_Vector (Vec r)
                (Times_Vector_Primitive (Vec X_j) (dsub beta_old beta_j))) of
        Inl e \<Rightarrow> Inl e
      | Inr h3 \<Rightarrow>
     (case vec_get h3 beta j of Inl e \<Rightarrow> Inl e
      | Inr beta_j' \<Rightarrow>
         Inr (h3, dmax max_change (dabs (dsub beta_j' beta_old)))))))))))"

text \<open>Line 43: the loop over the coordinates \<open>j = 0, ..., p - 1\<close>.\<close>

function coordinate_loop ::
  "NumericMatrix \<Rightarrow> dbl \<Rightarrow> addr \<Rightarrow> addr \<Rightarrow> addr \<Rightarrow> nat \<Rightarrow> nat \<Rightarrow> nat \<Rightarrow> heap \<times> dbl
     \<Rightarrow> error + heap \<times> dbl" where
  "coordinate_loop X lambda beta X_j r n p j s =
     (if j < p then
        (case coordinate_update X lambda beta X_j r n j s of Inl e \<Rightarrow> Inl e
         | Inr s' \<Rightarrow> coordinate_loop X lambda beta X_j r n p (j + 1) s')
      else Inr s)"
  by pat_completeness auto
termination
  by (relation "measure (\<lambda>(X, lambda, beta, X_j, r, n, p, j, s). p - j)") auto

text \<open>
  Lines 37 to 76: the loop over the sweeps. Each sweep starts with \<open>max_change = 0.0\<close>
  and the loop is left when a sweep ends with \<open>max_change < tol\<close>.
\<close>

function sweep_loop ::
  "NumericMatrix \<Rightarrow> dbl \<Rightarrow> int \<Rightarrow> dbl \<Rightarrow> addr \<Rightarrow> addr \<Rightarrow> addr \<Rightarrow> nat \<Rightarrow> nat \<Rightarrow> int \<Rightarrow> heap
     \<Rightarrow> error + heap" where
  "sweep_loop X lambda max_iter tol beta X_j r n p iter h =
     (if iter < max_iter then
        (case coordinate_loop X lambda beta X_j r n p 0 (h, Finite 0) of Inl e \<Rightarrow> Inl e
         | Inr (h', max_change) \<Rightarrow>
            if dless max_change tol then Inr h'
            else sweep_loop X lambda max_iter tol beta X_j r n p (iter + 1) h')
      else Inr h)"
  by pat_completeness auto
termination
  by (relation "measure (\<lambda>(X, lambda, max_iter, tol, beta, X_j, r, n, p, iter, h).
                   nat (max_iter - iter))") auto

text \<open>
  Lines 21 to 79. The call takes the heap, the handles of \<open>X\<close> and \<open>y\<close> and the three
  scalars, and returns the heap it leaves and the handle of the coefficient vector.
  \<open>beta\<close> and \<open>X_j\<close> are new zero-filled vectors and \<open>r\<close> is a new copy of \<open>y\<close>.
\<close>

definition lasso_cda_cpp ::
  "heap \<Rightarrow> NumericMatrix \<Rightarrow> addr \<Rightarrow> dbl \<Rightarrow> int \<Rightarrow> dbl \<Rightarrow> error + heap \<times> addr" where
  "lasso_cda_cpp h X y lambda max_iter tol =
     (let n = nrow X; p = ncol X in
      case alloc h (replicate p (Finite 0)) of (h1, beta) \<Rightarrow>
      case alloc h1 (replicate n (Finite 0)) of (h2, X_j) \<Rightarrow>
      case alloc h2 (h2 ! y) of (h3, r) \<Rightarrow>
      case sweep_loop X lambda max_iter tol beta X_j r n p 0 h3 of Inl e \<Rightarrow> Inl e
      | Inr h' \<Rightarrow> Inr (h', beta))"

declare sum_loop.simps [simp del] import_loop.simps [simp del] column_loop.simps [simp del]
  coordinate_loop.simps [simp del] sweep_loop.simps [simp del]


section \<open>The algorithm in the words of the specification\<close>

text \<open>
  The definitions of this section follow the specification, on plain lists; the
  theorems below compare them with the code above.
\<close>

subsection \<open>Well-formed inputs\<close>

text \<open>
  The buffer of a matrix has \<open>nrow * ncol\<close> elements (R guarantees it for every matrix
  object), and the handle points into the heap.
\<close>

definition valid_matrix :: "heap \<Rightarrow> NumericMatrix \<Rightarrow> bool" where
  "valid_matrix h X = (sexp X < length h \<and> length (h ! sexp X) = nrow X * ncol X)"

text \<open>The precondition of the driver: \<open>y\<close> has as many elements as \<open>X\<close> has rows.\<close>

definition dims_match :: "heap \<Rightarrow> NumericMatrix \<Rightarrow> addr \<Rightarrow> bool" where
  "dims_match h X y = (y < length h \<and> length (h ! y) = nrow X)"

definition is_finite :: "dbl \<Rightarrow> bool" where
  "is_finite x = (case x of Finite a \<Rightarrow> True | _ \<Rightarrow> False)"

definition finite_inputs :: "heap \<Rightarrow> NumericMatrix \<Rightarrow> addr \<Rightarrow> dbl \<Rightarrow> bool" where
  "finite_inputs h X y lambda =
     (list_all is_finite (h ! sexp X) \<and> list_all is_finite (h ! y) \<and> is_finite lambda)"

subsection \<open>Vectors\<close>

text \<open>Column \<open>j\<close> of the matrix \<open>X\<close>, the vector \<open>X_j\<close> of the specification.\<close>

definition column :: "heap \<Rightarrow> NumericMatrix \<Rightarrow> nat \<Rightarrow> dbl list" where
  "column h X j = map (\<lambda>i. h ! sexp X ! (i + j * nrow X)) [0..<nrow X]"

definition zero_column :: "heap \<Rightarrow> NumericMatrix \<Rightarrow> nat \<Rightarrow> bool" where
  "zero_column h X j = (column h X j = replicate (nrow X) (Finite 0))"

definition dsum :: "dbl list \<Rightarrow> dbl" where
  "dsum xs = foldl dadd (Finite 0) xs"

text \<open>The inner product \<open>x \<cdot> y\<close>; \<open>dot x x\<close> is the squared norm of \<open>x\<close>.\<close>

definition dot :: "dbl list \<Rightarrow> dbl list \<Rightarrow> dbl" where
  "dot xs ys = dsum (map2 dmul xs ys)"

text \<open>The vector \<open>r + x * c\<close>.\<close>

definition axpy :: "dbl list \<Rightarrow> dbl list \<Rightarrow> dbl \<Rightarrow> dbl list" where
  "axpy r x c = map2 (\<lambda>ri xi. dadd ri (dmul xi c)) r x"

text \<open>The product \<open>X\<beta>\<close> and the residual \<open>y - X\<beta>\<close>.\<close>

definition mat_vec :: "heap \<Rightarrow> NumericMatrix \<Rightarrow> dbl list \<Rightarrow> dbl list" where
  "mat_vec h X b =
     map (\<lambda>i. dsum (map (\<lambda>j. dmul (h ! sexp X ! (i + j * nrow X)) (b ! j)) [0..<ncol X]))
       [0..<nrow X]"

definition residual :: "heap \<Rightarrow> NumericMatrix \<Rightarrow> addr \<Rightarrow> dbl list \<Rightarrow> dbl list" where
  "residual h X y b = map2 dsub (h ! y) (mat_vec h X b)"

subsection \<open>Coordinate updates, sweeps and the convergence loop\<close>

text \<open>
  The values of the locals of the driver: the coefficient vector \<open>\<beta>\<close>, the column
  buffer, the residual \<open>r\<close> and \<open>max_change\<close>.
\<close>

type_synonym locals = "dbl list \<times> dbl list \<times> dbl list \<times> dbl"

definition change_of :: "locals \<Rightarrow> dbl" where
  "change_of s = snd (snd (snd s))"

text \<open>The heap of a call made in heap \<open>h0\<close> whose locals hold \<open>s\<close>.\<close>

definition heap_of :: "heap \<Rightarrow> locals \<Rightarrow> heap" where
  "heap_of h0 s = (case s of (b, xj, r, mc) \<Rightarrow> h0 @ [b, xj, r])"

definition wf_locals :: "NumericMatrix \<Rightarrow> locals \<Rightarrow> bool" where
  "wf_locals X s = (case s of (b, xj, r, mc) \<Rightarrow>
     length b = ncol X \<and> length xj = nrow X \<and> length r = nrow X)"

text \<open>
  Steps 2, 3 and 5 of the specification: with \<open>\<rho> = x \<cdot> r + \<parallel>x\<parallel>\<^sup>2 \<beta>\<^sub>j\<close>, the new coefficient
  is \<open>soft_threshold (\<rho> / \<parallel>x\<parallel>\<^sup>2) (\<lambda> / \<parallel>x\<parallel>\<^sup>2)\<close>.
\<close>

definition closed_form :: "dbl \<Rightarrow> dbl list \<Rightarrow> dbl list \<Rightarrow> dbl \<Rightarrow> dbl" where
  "closed_form lambda x r beta_j =
     (let norm2 = dot x x; rho = dadd (dot x r) (dmul norm2 beta_j)
      in soft_threshold (ddiv rho norm2) (ddiv lambda norm2))"

text \<open>
  Steps 1 to 7 for coordinate \<open>j\<close> with column \<open>x\<close>: the new coefficient, the residual
  \<open>r + x * (\<beta>\<^sub>j_old - \<beta>\<^sub>j)\<close>, and the largest change so far.
\<close>

definition cd_step :: "dbl \<Rightarrow> dbl list \<Rightarrow> nat \<Rightarrow> locals \<Rightarrow> locals" where
  "cd_step lambda x j s =
     (case s of (b, xj, r, mc) \<Rightarrow>
        let beta_j = closed_form lambda x r (b ! j)
        in (b[j := beta_j], x, axpy r x (dsub (b ! j) beta_j),
            dmax mc (dabs (dsub beta_j (b ! j)))))"

text \<open>One full sweep: the coordinates \<open>0, ..., p - 1\<close> in ascending order.\<close>

definition cd_sweep :: "dbl \<Rightarrow> (nat \<Rightarrow> dbl list) \<Rightarrow> nat \<Rightarrow> locals \<Rightarrow> locals" where
  "cd_sweep lambda col p s =
     (case s of (b, xj, r, mc) \<Rightarrow>
        foldl (\<lambda>s j. cd_step lambda (col j) j s) (b, xj, r, Finite 0) [0..<p])"

text \<open>At most \<open>k\<close> sweeps, stopping after the first whose largest change is below \<open>tol\<close>.\<close>

fun cd_loop :: "dbl \<Rightarrow> (nat \<Rightarrow> dbl list) \<Rightarrow> nat \<Rightarrow> dbl \<Rightarrow> nat \<Rightarrow> locals \<Rightarrow> locals" where
  "cd_loop lambda col p tol 0 s = s"
| "cd_loop lambda col p tol (Suc k) s =
     (let s' = cd_sweep lambda col p s
      in if dless (change_of s') tol then s' else cd_loop lambda col p tol k s')"

text \<open>The number of sweeps that \<open>cd_loop\<close> performs.\<close>

fun sweep_count :: "dbl \<Rightarrow> (nat \<Rightarrow> dbl list) \<Rightarrow> nat \<Rightarrow> dbl \<Rightarrow> nat \<Rightarrow> locals \<Rightarrow> nat" where
  "sweep_count lambda col p tol 0 s = 0"
| "sweep_count lambda col p tol (Suc k) s =
     (let s' = cd_sweep lambda col p s
      in if dless (change_of s') tol then 1 else Suc (sweep_count lambda col p tol k s'))"

text \<open>The locals when the loop over the sweeps is entered: \<open>\<beta> = 0\<close> and \<open>r = y\<close>.\<close>

definition initial :: "heap \<Rightarrow> NumericMatrix \<Rightarrow> addr \<Rightarrow> locals" where
  "initial h X y =
     (replicate (ncol X) (Finite 0), replicate (nrow X) (Finite 0), h ! y, Finite 0)"

text \<open>The residual invariant \<open>r = y - X\<beta>\<close>, on finite coefficients.\<close>

definition inv_locals :: "heap \<Rightarrow> NumericMatrix \<Rightarrow> addr \<Rightarrow> locals \<Rightarrow> bool" where
  "inv_locals h X y s = (case s of (b, xj, r, mc) \<Rightarrow>
     length b = ncol X \<and> length xj = nrow X \<and> list_all is_finite b \<and> r = residual h X y b)"

text \<open>Coefficient \<open>j\<close> is zero.\<close>

definition zero_at :: "NumericMatrix \<Rightarrow> nat \<Rightarrow> locals \<Rightarrow> bool" where
  "zero_at X j s = (length (fst s) = ncol X \<and> fst s ! j = Finite 0)"

subsection \<open>Two concrete inputs\<close>

text \<open>
  The scenario with shrinkage of the specification: \<open>X = [[1,0],[0,1]]\<close>, \<open>y = [3,-2]\<close>.
  The matrix is object 0 of the heap and \<open>y\<close> is object 1.
\<close>

definition shrink_heap :: heap where
  "shrink_heap = [[Finite 1, Finite 0, Finite 0, Finite 1], [Finite 3, Finite (- 2)]]"

definition shrink_X :: NumericMatrix where
  "shrink_X = \<lparr>sexp = 0, nrow = 2, ncol = 2\<rparr>"

text \<open>A matrix whose first column is zero: \<open>X = [[0,1],[0,1]]\<close>, with \<open>y = [3,1]\<close>.\<close>

definition degenerate_heap :: heap where
  "degenerate_heap = [[Finite 0, Finite 0, Finite 1, Finite 1], [Finite 3, Finite 1]]"

definition degenerate_X :: NumericMatrix where
  "degenerate_X = \<lparr>sexp = 0, nrow = 2, ncol = 2\<rparr>"


section \<open>The loops of the code compute the vector operations\<close>

text \<open>
  The heap of a call made in heap \<open>h0\<close> is \<open>h0 @ [b, xj, rr]\<close>: the coefficient vector at
  address \<open>length h0\<close>, the column buffer at the next address and the residual at the
  one after.
\<close>

lemma nth3 [simp]:
  "(h0 @ [b, xj, rr]) ! length h0 = b"
  "(h0 @ [b, xj, rr]) ! Suc (length h0) = xj"
  "(h0 @ [b, xj, rr]) ! Suc (Suc (length h0)) = rr"
  by (simp_all add: nth_append)

lemma upd3 [simp]:
  "(h0 @ [b, xj, rr])[length h0 := v] = h0 @ [v, xj, rr]"
  "(h0 @ [b, xj, rr])[Suc (length h0) := v] = h0 @ [b, v, rr]"
  "(h0 @ [b, xj, rr])[Suc (Suc (length h0)) := v] = h0 @ [b, xj, v]"
  by (simp_all add: list_update_append)

subsection \<open>The column loop\<close>

lemma mat_index: "i < n \<Longrightarrow> j < p \<Longrightarrow> i + j * n < n * (p::nat)"
proof -
  assume a: "i < n" "j < p"
  have "i + j * n < n + j * n" using a by simp
  also have "\<dots> = (Suc j) * n" by simp
  also have "\<dots> \<le> p * n" using a by (intro mult_le_mono1) simp
  finally show ?thesis by (simp add: mult.commute)
qed

lemma column_loop_inv:
  assumes X: "valid_matrix h0 X" and j: "j < ncol X" and n: "n = nrow X"
  shows "length xj = n \<Longrightarrow> i \<le> n \<Longrightarrow>
     \<exists>xj'. column_loop X (Suc (length h0)) n j i (h0 @ [b, xj, rr]) = Inr (h0 @ [b, xj', rr])
        \<and> length xj' = n
        \<and> (\<forall>k<n. xj' ! k = (if k < i then xj ! k else column h0 X j ! k))"
proof (induction "n - i" arbitrary: i xj)
  case 0
  then have "i = n" by simp
  then show ?case using 0 by (simp add: column_loop.simps)
next
  case (Suc d)
  then have i: "i < n" by simp
  have rd: "mat_get (h0 @ [b, xj, rr]) X i j = Inr (h0 ! sexp X ! (i + j * n))"
    using X j i n mat_index [of i n j "ncol X"]
    by (simp add: mat_get_def vec_get_def valid_matrix_def nth_append)
  let ?v = "h0 ! sexp X ! (i + j * n)"
  have wr: "vec_set (h0 @ [b, xj, rr]) (Suc (length h0)) i ?v = Inr (h0 @ [b, xj[i := ?v], rr])"
    using i Suc.prems by (simp add: vec_set_def)
  have "\<exists>xj'. column_loop X (Suc (length h0)) n j (i + 1) (h0 @ [b, xj[i := ?v], rr])
          = Inr (h0 @ [b, xj', rr]) \<and> length xj' = n
        \<and> (\<forall>k<n. xj' ! k = (if k < i + 1 then xj[i := ?v] ! k else column h0 X j ! k))"
    using Suc.hyps(1) [of "i + 1" "xj[i := ?v]"] Suc.hyps(2) Suc.prems i by simp
  then obtain xj' where
    r: "column_loop X (Suc (length h0)) n j (i + 1) (h0 @ [b, xj[i := ?v], rr]) = Inr (h0 @ [b, xj', rr])"
    and l: "length xj' = n"
    and e: "\<forall>k<n. xj' ! k = (if k < i + 1 then xj[i := ?v] ! k else column h0 X j ! k)"
    by blast
  have col: "column h0 X j ! i = ?v" using i n by (simp add: column_def)
  have "\<forall>k<n. xj' ! k = (if k < i then xj ! k else column h0 X j ! k)"
  proof (intro allI impI)
    fix k assume k: "k < n"
    show "xj' ! k = (if k < i then xj ! k else column h0 X j ! k)"
    proof (cases "k = i")
      case True
      then show ?thesis using e k col Suc.prems i by simp
    next
      case False
      then show ?thesis using e k by (auto simp: less_Suc_eq)
    qed
  qed
  moreover have "column_loop X (Suc (length h0)) n j i (h0 @ [b, xj, rr]) = Inr (h0 @ [b, xj', rr])"
    using i rd wr r by (subst column_loop.simps) simp
  ultimately show ?case using l by blast
qed

lemma length_column [simp]: "length (column h X j) = nrow X"
  by (simp add: column_def)

lemma column_loop_correct:
  assumes "valid_matrix h0 X" "j < ncol X" "length xj = nrow X"
  shows "column_loop X (Suc (length h0)) (nrow X) j 0 (h0 @ [b, xj, rr])
           = Inr (h0 @ [b, column h0 X j, rr])"
proof -
  obtain xj' where
    r: "column_loop X (Suc (length h0)) (nrow X) j 0 (h0 @ [b, xj, rr]) = Inr (h0 @ [b, xj', rr])"
    and l: "length xj' = nrow X"
    and e: "\<forall>k<nrow X. xj' ! k = (if k < 0 then xj ! k else column h0 X j ! k)"
    using column_loop_inv [OF assms(1,2) refl assms(3), of 0 b rr] by blast
  have "xj' = column h0 X j"
    using l e by (intro nth_equalityI) simp_all
  then show ?thesis using r by simp
qed

subsection \<open>Sums of products\<close>

lemma sum_loop_times:
  assumes "n \<le> length (h ! a)" "n \<le> length (h ! c)"
  shows "sum_loop h (Times_Vector_Vector (Vec a) (Vec c)) n i acc
           = Inr (foldl dadd acc (map (\<lambda>k. dmul (h ! a ! k) (h ! c ! k)) [i..<n]))"
proof (induction "n - i" arbitrary: i acc)
  case 0
  then show ?case by (simp add: sum_loop.simps)
next
  case (Suc d)
  then have i: "i < n" by simp
  have "sum_loop h (Times_Vector_Vector (Vec a) (Vec c)) n (i + 1) (dadd acc (dmul (h ! a ! i) (h ! c ! i)))
      = Inr (foldl dadd (dadd acc (dmul (h ! a ! i) (h ! c ! i))) (map (\<lambda>k. dmul (h ! a ! k) (h ! c ! k)) [i + 1..<n]))"
    using Suc.hyps(1) [of "i + 1"] Suc.hyps(2) by simp
  then show ?case using i assms
    by (subst sum_loop.simps) (simp add: vec_get_def upt_conv_Cons)
qed

lemma map2_nth:
  "length xs \<le> length ys \<Longrightarrow> map2 f xs ys = map (\<lambda>k. f (xs ! k) (ys ! k)) [0..<length xs]"
  by (intro nth_equalityI) simp_all

lemma sugar_sum_times:
  assumes "length (h ! a) \<le> length (h ! c)"
  shows "sugar_sum h (Times_Vector_Vector (Vec a) (Vec c)) = Inr (dot (h ! a) (h ! c))"
  using assms sum_loop_times [of "length (h ! a)" h a c 0 "Finite 0"]
  by (simp add: sugar_sum_def dot_def dsum_def map2_nth)

subsection \<open>The assignment to the residual\<close>

lemma import_loop_inv:
  assumes "length xj = n"
  shows "length rr = n \<Longrightarrow> i \<le> n \<Longrightarrow>
     \<exists>rr'. import_loop (Suc (Suc (length h0)))
              (Plus_Vector_Vector (Vec (Suc (Suc (length h0))))
                 (Times_Vector_Primitive (Vec (Suc (length h0))) c)) n i (h0 @ [b, xj, rr])
             = Inr (h0 @ [b, xj, rr'])
        \<and> length rr' = n
        \<and> (\<forall>k<n. rr' ! k = (if k < i then rr ! k else dadd (rr ! k) (dmul (xj ! k) c)))"
proof (induction "n - i" arbitrary: i rr)
  case 0
  then have "i = n" by simp
  then show ?case using 0 by (simp add: import_loop.simps)
next
  case (Suc d)
  then have i: "i < n" by simp
  let ?e = "Plus_Vector_Vector (Vec (Suc (Suc (length h0))))
                 (Times_Vector_Primitive (Vec (Suc (length h0))) c)"
  let ?v = "dadd (rr ! i) (dmul (xj ! i) c)"
  have rd: "sugar_elem (h0 @ [b, xj, rr]) ?e i = Inr ?v"
    using i assms Suc.prems by (simp add: vec_get_def)
  have wr: "vec_set (h0 @ [b, xj, rr]) (Suc (Suc (length h0))) i ?v = Inr (h0 @ [b, xj, rr[i := ?v]])"
    using i Suc.prems by (simp add: vec_set_def)
  have "\<exists>rr'. import_loop (Suc (Suc (length h0))) ?e n (i + 1) (h0 @ [b, xj, rr[i := ?v]])
             = Inr (h0 @ [b, xj, rr'])
        \<and> length rr' = n
        \<and> (\<forall>k<n. rr' ! k = (if k < i + 1 then rr[i := ?v] ! k else dadd (rr[i := ?v] ! k) (dmul (xj ! k) c)))"
    using Suc.hyps(1) [of "i + 1" "rr[i := ?v]"] Suc.hyps(2) Suc.prems i by simp
  then obtain rr' where
    r: "import_loop (Suc (Suc (length h0))) ?e n (i + 1) (h0 @ [b, xj, rr[i := ?v]]) = Inr (h0 @ [b, xj, rr'])"
    and l: "length rr' = n"
    and e: "\<forall>k<n. rr' ! k = (if k < i + 1 then rr[i := ?v] ! k else dadd (rr[i := ?v] ! k) (dmul (xj ! k) c))"
    by blast
  have "\<forall>k<n. rr' ! k = (if k < i then rr ! k else dadd (rr ! k) (dmul (xj ! k) c))"
  proof (intro allI impI)
    fix k assume k: "k < n"
    show "rr' ! k = (if k < i then rr ! k else dadd (rr ! k) (dmul (xj ! k) c))"
    proof (cases "k = i")
      case True
      then show ?thesis using e k Suc.prems i by simp
    next
      case False
      then show ?thesis using e k by (auto simp: less_Suc_eq)
    qed
  qed
  moreover have "import_loop (Suc (Suc (length h0))) ?e n i (h0 @ [b, xj, rr]) = Inr (h0 @ [b, xj, rr'])"
    using i rd wr r by (subst import_loop.simps) simp
  ultimately show ?case using l by blast
qed

lemma assign_sugar_correct:
  assumes "length xj = length rr"
  shows "assign_sugar (h0 @ [b, xj, rr]) (Suc (Suc (length h0)))
           (Plus_Vector_Vector (Vec (Suc (Suc (length h0))))
              (Times_Vector_Primitive (Vec (Suc (length h0))) c))
         = Inr (h0 @ [b, xj, axpy rr xj c])"
proof -
  let ?e = "Plus_Vector_Vector (Vec (Suc (Suc (length h0))))
                 (Times_Vector_Primitive (Vec (Suc (length h0))) c)"
  obtain rr' where
    r: "import_loop (Suc (Suc (length h0))) ?e (length rr) 0 (h0 @ [b, xj, rr]) = Inr (h0 @ [b, xj, rr'])"
    and l: "length rr' = length rr"
    and e: "\<forall>k<length rr. rr' ! k = (if k < 0 then rr ! k else dadd (rr ! k) (dmul (xj ! k) c))"
    using import_loop_inv [OF assms refl, of 0 h0 c b] by blast
  have "rr' = axpy rr xj c"
    using l e assms by (intro nth_equalityI) (simp_all add: axpy_def)
  then show ?thesis using r by (simp add: assign_sugar_def)
qed

subsection \<open>One coordinate update\<close>

lemma length_axpy [simp]: "length (axpy r x c) = min (length r) (length x)"
  by (simp add: axpy_def)

lemma wf_cd_step: "wf_locals X s \<Longrightarrow> wf_locals X (cd_step lambda (column h0 X j) j s)"
  by (cases s) (simp add: wf_locals_def cd_step_def Let_def)

lemma threshold_args_correct:
  assumes "length xj \<le> length rr" "j < length b"
  shows "threshold_args (h0 @ [b, xj, rr]) lambda (length h0) (Suc (length h0))
           (Suc (Suc (length h0))) j
         = Inr (ddiv (dadd (dot xj rr) (dmul (dot xj xj) (b ! j))) (dot xj xj),
                ddiv lambda (dot xj xj))"
  using assms by (simp add: threshold_args_def sugar_sum_times vec_get_def Let_def)

lemma coordinate_update_correct:
  assumes X: "valid_matrix h0 X" and j: "j < ncol X" and wf: "wf_locals X s"
  shows "coordinate_update X lambda (length h0) (Suc (length h0)) (Suc (Suc (length h0)))
           (nrow X) j (heap_of h0 s, change_of s)
         = (let s' = cd_step lambda (column h0 X j) j s in Inr (heap_of h0 s', change_of s'))"
proof -
  obtain b xj rr mc where s: "s = (b, xj, rr, mc)" by (cases s) auto
  have len: "length b = ncol X" "length xj = nrow X" "length rr = nrow X"
    using wf s by (simp_all add: wf_locals_def)
  let ?col = "column h0 X j"
  let ?v = "closed_form lambda ?col rr (b ! j)"
  have c1: "column_loop X (Suc (length h0)) (nrow X) j 0 (h0 @ [b, xj, rr]) = Inr (h0 @ [b, ?col, rr])"
    using column_loop_correct [OF X j len(2)] .
  have c2: "threshold_args (h0 @ [b, ?col, rr]) lambda (length h0) (Suc (length h0))
             (Suc (Suc (length h0))) j
           = Inr (ddiv (dadd (dot ?col rr) (dmul (dot ?col ?col) (b ! j))) (dot ?col ?col),
                ddiv lambda (dot ?col ?col))"
    using threshold_args_correct [of ?col rr j b h0 lambda] len j by simp
  have c3: "assign_sugar (h0 @ [b[j := ?v], ?col, rr]) (Suc (Suc (length h0)))
           (Plus_Vector_Vector (Vec (Suc (Suc (length h0))))
              (Times_Vector_Primitive (Vec (Suc (length h0))) (dsub (b ! j) ?v)))
         = Inr (h0 @ [b[j := ?v], ?col, axpy rr ?col (dsub (b ! j) ?v)])"
    using assign_sugar_correct [of ?col rr h0 "b[j := ?v]" "dsub (b ! j) ?v"] len by simp
  have v: "soft_threshold (ddiv (dadd (dot ?col rr) (dmul (dot ?col ?col) (b ! j))) (dot ?col ?col))
             (ddiv lambda (dot ?col ?col)) = ?v"
    by (simp add: closed_form_def Let_def)
  show ?thesis
    using j len unfolding s coordinate_update_def
    by (simp add: c1 c2 v c3 vec_get_def vec_set_def heap_of_def change_of_def cd_step_def
        Let_def)
qed

subsection \<open>Sweeps and the whole call\<close>

lemma coordinate_loop_correct:
  assumes X: "valid_matrix h0 X"
  shows "wf_locals X s \<Longrightarrow> j \<le> ncol X \<Longrightarrow>
     coordinate_loop X lambda (length h0) (Suc (length h0)) (Suc (Suc (length h0)))
       (nrow X) (ncol X) j (heap_of h0 s, change_of s)
     = (let s' = foldl (\<lambda>s k. cd_step lambda (column h0 X k) k s) s [j..<ncol X]
        in Inr (heap_of h0 s', change_of s'))"
proof (induction "ncol X - j" arbitrary: j s)
  case 0
  then show ?case by (simp add: coordinate_loop.simps)
next
  case (Suc d)
  then have j: "j < ncol X" by simp
  let ?s1 = "cd_step lambda (column h0 X j) j s"
  have wf1: "wf_locals X ?s1" using Suc.prems(1) by (rule wf_cd_step)
  have ih: "coordinate_loop X lambda (length h0) (Suc (length h0)) (Suc (Suc (length h0)))
       (nrow X) (ncol X) (j + 1) (heap_of h0 ?s1, change_of ?s1)
     = (let s' = foldl (\<lambda>s k. cd_step lambda (column h0 X k) k s) ?s1 [j + 1..<ncol X]
        in Inr (heap_of h0 s', change_of s'))"
    using Suc.hyps(1) [of "j + 1" ?s1] Suc.hyps(2) wf1 j by simp
  show ?case
    using j ih coordinate_update_correct [OF X j Suc.prems(1), of lambda]
    by (subst coordinate_loop.simps) (simp add: Let_def upt_conv_Cons)
qed

lemma wf_foldl:
  "wf_locals X s \<Longrightarrow> wf_locals X (foldl (\<lambda>s k. cd_step lambda (column h0 X k) k s) s js)"
  by (induction js arbitrary: s) (simp_all add: wf_cd_step)

lemma wf_cd_sweep: "wf_locals X s \<Longrightarrow> wf_locals X (cd_sweep lambda (column h0 X) p s)"
proof -
  assume wf: "wf_locals X s"
  obtain b xj rr mc where s: "s = (b, xj, rr, mc)" by (cases s) auto
  have "wf_locals X (b, xj, rr, Finite 0)" using wf s by (simp add: wf_locals_def)
  then show ?thesis unfolding s cd_sweep_def by (simp add: wf_foldl)
qed

lemma full_sweep_correct:
  assumes X: "valid_matrix h0 X" and wf: "wf_locals X s"
  shows "coordinate_loop X lambda (length h0) (Suc (length h0)) (Suc (Suc (length h0)))
       (nrow X) (ncol X) 0 (heap_of h0 s, Finite 0)
     = (let s' = cd_sweep lambda (column h0 X) (ncol X) s in Inr (heap_of h0 s', change_of s'))"
proof -
  obtain b xj rr mc where s: "s = (b, xj, rr, mc)" by (cases s) auto
  have wf0: "wf_locals X (b, xj, rr, Finite 0)" using wf s by (simp add: wf_locals_def)
  show ?thesis
    using coordinate_loop_correct [OF X wf0, of 0 lambda]
    by (simp add: s cd_sweep_def heap_of_def change_of_def)
qed

lemma sweep_loop_correct:
  assumes X: "valid_matrix h0 X"
  shows "wf_locals X s \<Longrightarrow>
     sweep_loop X lambda max_iter tol (length h0) (Suc (length h0)) (Suc (Suc (length h0)))
       (nrow X) (ncol X) iter (heap_of h0 s)
     = Inr (heap_of h0 (cd_loop lambda (column h0 X) (ncol X) tol (nat (max_iter - iter)) s))"
proof (induction "nat (max_iter - iter)" arbitrary: iter s)
  case 0
  then show ?case by (simp add: sweep_loop.simps)
next
  case (Suc d)
  then have it: "iter < max_iter" by simp
  have n: "nat (max_iter - iter) = Suc (nat (max_iter - (iter + 1)))" using it by simp
  let ?s1 = "cd_sweep lambda (column h0 X) (ncol X) s"
  have wf1: "wf_locals X ?s1" using Suc.prems by (rule wf_cd_sweep)
  have ih: "sweep_loop X lambda max_iter tol (length h0) (Suc (length h0)) (Suc (Suc (length h0)))
       (nrow X) (ncol X) (iter + 1) (heap_of h0 ?s1)
     = Inr (heap_of h0 (cd_loop lambda (column h0 X) (ncol X) tol (nat (max_iter - (iter + 1))) ?s1))"
    using Suc.hyps(1) [of "iter + 1" ?s1] Suc.hyps(2) wf1 by simp
  show ?case
    using it ih full_sweep_correct [OF X Suc.prems, of lambda]
    by (subst sweep_loop.simps) (simp add: n Let_def change_of_def)
qed

lemma lasso_cda_cpp_correct:
  assumes X: "valid_matrix h X" and y: "dims_match h X y"
  shows "lasso_cda_cpp h X y lambda max_iter tol
         = Inr (heap_of h (cd_loop lambda (column h X) (ncol X) tol (nat max_iter) (initial h X y)),
                length h)"
proof -
  have wf: "wf_locals X (initial h X y)"
    using y by (simp add: wf_locals_def initial_def dims_match_def)
  have h3: "(h @ [replicate (ncol X) (Finite 0)]) @ [replicate (nrow X) (Finite 0)]
              @ [h ! y] = heap_of h (initial h X y)"
    by (simp add: heap_of_def initial_def)
  show ?thesis
    using sweep_loop_correct [OF X wf, of lambda max_iter tol 0] y
    by (simp add: lasso_cda_cpp_def alloc_def Let_def nth_append dims_match_def
        heap_of_def initial_def)
qed

section \<open>Finite values\<close>

lemma is_finite_simps [simp]:
  "is_finite (Finite a)" "\<not> is_finite PosInf" "\<not> is_finite NegInf" "\<not> is_finite NaN"
  by (simp_all add: is_finite_def)

lemma is_finiteE: "is_finite x \<Longrightarrow> \<exists>a. x = Finite a"
  by (cases x) simp_all

lemma finite_list: "list_all is_finite xs \<Longrightarrow> \<exists>rs. xs = map Finite rs"
proof (induction xs)
  case Nil
  then show ?case by simp
next
  case (Cons x xs)
  from Cons.prems have "is_finite x" and "list_all is_finite xs" by simp_all
  then obtain a rs where "x = Finite a" and "xs = map Finite rs"
    using Cons.IH is_finiteE by blast
  then have e: "x # xs = map Finite (a # rs)" by simp
  show ?case by (rule exI [of _ "a # rs"]) (rule e)
qed

lemma list_all_map_Finite [simp]: "list_all is_finite (map Finite rs)"
  by (simp add: list_all_iff)

lemma foldl_dadd_Finite:
  "foldl dadd (Finite a) (map (\<lambda>k. Finite (f k)) ks) = Finite (a + sum_list (map f ks))"
  by (induction ks arbitrary: a) (simp_all add: add.assoc)

lemma dsum_Finite: "dsum (map (\<lambda>k. Finite (f k)) ks) = Finite (sum_list (map f ks))"
  using foldl_dadd_Finite [of 0 f ks] by (simp add: dsum_def)

lemma dot_Finite:
  "dot (map Finite xs) (map Finite ys) = Finite (sum_list (map2 (*) xs ys))"
proof -
  have "map2 dmul (map Finite xs) (map Finite ys)
      = map (\<lambda>k. Finite (fst k * snd k)) (zip xs ys)"
    by (simp add: zip_map_map split_def)
  then have "dot (map Finite xs) (map Finite ys) = Finite (sum_list (map (\<lambda>k. fst k * snd k) (zip xs ys)))"
    unfolding dot_def using dsum_Finite [of "\<lambda>k. fst k * snd k" "zip xs ys"] by simp
  then show ?thesis by (simp add: split_def)
qed

lemma soft_threshold_NaN [simp]: "soft_threshold NaN l = Finite 0"
  by (cases l) (simp_all add: soft_threshold_def)

lemma soft_threshold_Finite:
  "\<exists>v. soft_threshold (Finite z) (Finite l) = Finite v"
  by (simp add: soft_threshold_def dsub_def)

lemma sum_squares_nonneg:
  fixes xs :: "real list"
  shows "0 \<le> sum_list (map2 (*) xs xs)"
  by (induction xs) simp_all

lemma sum_squares_zero:
  fixes xs :: "real list"
  shows "sum_list (map2 (*) xs xs) = 0 \<Longrightarrow> \<forall>x\<in>set xs. x = 0"
proof (induction xs)
  case Nil
  then show ?case by simp
next
  case (Cons x xs)
  have "0 \<le> x * x" by simp
  moreover have "0 \<le> sum_list (map2 (*) xs xs)" by (rule sum_squares_nonneg)
  moreover have "x * x + sum_list (map2 (*) xs xs) = 0" using Cons.prems by simp
  ultimately have "x * x = 0" and "sum_list (map2 (*) xs xs) = 0" by linarith+
  then show ?case using Cons.IH by simp
qed

lemma dot_zero_column:
  fixes xs ys :: "real list"
  assumes "\<forall>x\<in>set xs. x = 0"
  shows "sum_list (map2 (*) xs ys) = 0"
  using assms
proof (induction xs arbitrary: ys)
  case Nil
  then show ?case by simp
next
  case (Cons x xs)
  then show ?case by (cases ys) simp_all
qed

lemma closed_form_Finite:
  "\<exists>v. closed_form (Finite l) (map Finite xs) (map Finite rs) (Finite bj) = Finite v"
proof (cases "sum_list (map2 (*) xs xs) = 0")
  case True
  then have "sum_list (map2 (*) xs rs) = 0"
    using sum_squares_zero dot_zero_column by blast
  then show ?thesis using True
    by (simp add: closed_form_def dot_Finite Let_def inf_of_sign_def)
next
  case False
  then show ?thesis
    using soft_threshold_Finite by (simp add: closed_form_def dot_Finite Let_def)
qed

lemma column_Finite:
  assumes "h ! sexp X = map Finite M" "length M = nrow X * ncol X" "j < ncol X"
  shows "column h X j = map Finite (map (\<lambda>i. M ! (i + j * nrow X)) [0..<nrow X])"
  using assms mat_index [of _ "nrow X" j "ncol X"] by (simp add: column_def)

section \<open>The residual under a coordinate update\<close>

lemma sum_list_update:
  fixes f :: "nat \<Rightarrow> real"
  assumes "j < p" "length B = p"
  shows "sum_list (map (\<lambda>k. f k * (B[j := v]) ! k) [0..<p])
       = sum_list (map (\<lambda>k. f k * B ! k) [0..<p]) + f j * (v - B ! j)"
proof -
  have fin: "finite {0..<p}" and mem: "j \<in> {0..<p}" using assms by simp_all
  have a: "sum_list (map (\<lambda>k. f k * (B[j := v]) ! k) [0..<p])
         = f j * v + (\<Sum>k\<in>{0..<p} - {j}. f k * (B[j := v]) ! k)"
    using sum.remove [OF fin mem, of "\<lambda>k. f k * (B[j := v]) ! k"] assms
    by (simp add: interv_sum_list_conv_sum_set_nat)
  have b: "sum_list (map (\<lambda>k. f k * B ! k) [0..<p])
         = f j * B ! j + (\<Sum>k\<in>{0..<p} - {j}. f k * B ! k)"
    using sum.remove [OF fin mem, of "\<lambda>k. f k * B ! k"]
    by (simp add: interv_sum_list_conv_sum_set_nat)
  have c: "(\<Sum>k\<in>{0..<p} - {j}. f k * (B[j := v]) ! k) = (\<Sum>k\<in>{0..<p} - {j}. f k * B ! k)"
    by (rule sum.cong) simp_all
  show ?thesis unfolding a b c by (simp add: algebra_simps)
qed

lemma residual_nth:
  assumes M: "h ! sexp X = map Finite M" "length M = nrow X * ncol X"
    and Y: "h ! y = map Finite Y" "length Y = nrow X"
    and C: "length C = ncol X" and i: "i < nrow X"
  shows "residual h X y (map Finite C) ! i
      = Finite (Y ! i - sum_list (map (\<lambda>k. M ! (i + k * nrow X) * C ! k) [0..<ncol X]))"
proof -
  have idx: "\<And>k. k < ncol X \<Longrightarrow> i + k * nrow X < length M"
    using i M(2) mat_index [of i "nrow X" _ "ncol X"] by simp
  have row: "map (\<lambda>k. dmul (h ! sexp X ! (i + k * nrow X)) (map Finite C ! k)) [0..<ncol X]
    = map (\<lambda>k. Finite (M ! (i + k * nrow X) * C ! k)) [0..<ncol X]"
    using M(1) idx C by simp
  have "residual h X y (map Finite C) ! i
      = dsub (Finite (Y ! i))
          (dsum (map (\<lambda>k. dmul (h ! sexp X ! (i + k * nrow X)) (map Finite C ! k)) [0..<ncol X]))"
    using i Y by (simp add: residual_def mat_vec_def)
  also have "\<dots> = dsub (Finite (Y ! i))
          (dsum (map (\<lambda>k. Finite (M ! (i + k * nrow X) * C ! k)) [0..<ncol X]))"
    by (simp only: row)
  also have "\<dots> = Finite (Y ! i - sum_list (map (\<lambda>k. M ! (i + k * nrow X) * C ! k) [0..<ncol X]))"
    by (simp add: dsum_Finite dsub_def)
  finally show ?thesis .
qed

lemma length_residual: "length (h ! y) = nrow X \<Longrightarrow> length (residual h X y b) = nrow X"
  by (simp add: residual_def mat_vec_def)

lemma residual_Finite:
  assumes M: "h ! sexp X = map Finite M" "length M = nrow X * ncol X"
    and Y: "h ! y = map Finite Y" "length Y = nrow X"
    and C: "length C = ncol X"
  shows "residual h X y (map Finite C)
      = map Finite (map (\<lambda>i. Y ! i - sum_list (map (\<lambda>k. M ! (i + k * nrow X) * C ! k) [0..<ncol X]))
          [0..<nrow X])"
proof (rule nth_equalityI)
  show "length (residual h X y (map Finite C)) = length (map Finite (map (\<lambda>i. Y ! i - sum_list (map (\<lambda>k. M ! (i + k * nrow X) * C ! k) [0..<ncol X]))
          [0..<nrow X]))"
    using Y by (simp add: length_residual)
next
  fix i assume "i < length (residual h X y (map Finite C))"
  then have i: "i < nrow X" using Y by (simp add: length_residual)
  show "residual h X y (map Finite C) ! i = map Finite (map (\<lambda>i. Y ! i - sum_list (map (\<lambda>k. M ! (i + k * nrow X) * C ! k) [0..<ncol X]))
          [0..<nrow X]) ! i"
    using residual_nth [OF M Y C i] i by simp
qed

lemma residual_initial:
  assumes M: "h ! sexp X = map Finite M" "length M = nrow X * ncol X"
    and Y: "h ! y = map Finite Y" "length Y = nrow X"
  shows "residual h X y (replicate (ncol X) (Finite 0)) = h ! y"
proof -
  have z: "replicate (ncol X) (Finite 0) = map Finite (replicate (ncol X) 0)" by simp
  have s0: "sum_list (map (\<lambda>k. M ! (i + k * nrow X) * replicate (ncol X) 0 ! k) [0..<ncol X]) = 0" for i
  proof -
    have "map (\<lambda>k. M ! (i + k * nrow X) * replicate (ncol X) 0 ! k) [0..<ncol X]
        = map (\<lambda>k. 0) [0..<ncol X]"
      by simp
    then show ?thesis by (simp only: sum_list_0)
  qed
  have "residual h X y (map Finite (replicate (ncol X) 0)) = map Finite (map (\<lambda>i. Y ! i) [0..<nrow X])"
    using residual_Finite [OF M Y, of "replicate (ncol X) 0"] by (simp add: s0)
  also have "\<dots> = h ! y" using Y by (intro nth_equalityI) simp_all
  finally show ?thesis by (simp only: z)
qed

lemma residual_update:
  assumes M: "h ! sexp X = map Finite M" "length M = nrow X * ncol X"
    and Y: "h ! y = map Finite Y" "length Y = nrow X"
    and B: "length B = ncol X" and j: "j < ncol X"
  shows "axpy (residual h X y (map Finite B)) (column h X j) (dsub (Finite (B ! j)) (Finite v))
         = residual h X y (map Finite (B[j := v]))"
proof (rule nth_equalityI)
  show "length (axpy (residual h X y (map Finite B)) (column h X j) (dsub (Finite (B ! j)) (Finite v)))
      = length (residual h X y (map Finite (B[j := v])))"
    using Y by (simp add: length_residual)
next
  fix i
  assume "i < length (axpy (residual h X y (map Finite B)) (column h X j) (dsub (Finite (B ! j)) (Finite v)))"
  then have i: "i < nrow X" using Y by (simp add: length_residual)
  have idx: "\<And>k. k < ncol X \<Longrightarrow> i + k * nrow X < length M"
    using i M(2) mat_index [of i "nrow X" _ "ncol X"] by simp
  have col: "column h X j ! i = Finite (M ! (i + j * nrow X))"
    using i j M(1) idx by (simp add: column_def)
  have B': "length (B[j := v]) = ncol X" using B by simp
  have "axpy (residual h X y (map Finite B)) (column h X j) (dsub (Finite (B ! j)) (Finite v)) ! i
      = Finite (Y ! i - sum_list (map (\<lambda>k. M ! (i + k * nrow X) * B ! k) [0..<ncol X])
                + M ! (i + j * nrow X) * (B ! j - v))"
    using i Y residual_nth [OF M Y B i] col by (simp add: axpy_def length_residual dsub_def)
  also have "\<dots> = Finite (Y ! i - sum_list (map (\<lambda>k. M ! (i + k * nrow X) * (B[j := v]) ! k) [0..<ncol X]))"
    using sum_list_update [OF j B, of "\<lambda>k. M ! (i + k * nrow X)" v] by (simp add: algebra_simps)
  also have "\<dots> = residual h X y (map Finite (B[j := v])) ! i"
    using residual_nth [OF M Y B' i] by simp
  finally show "axpy (residual h X y (map Finite B)) (column h X j) (dsub (Finite (B ! j)) (Finite v)) ! i
      = residual h X y (map Finite (B[j := v])) ! i" .
qed

lemma closed_form_residual:
  assumes X: "valid_matrix h X" and y: "dims_match h X y" and f: "finite_inputs h X y lambda"
    and j: "j < ncol X" and b: "length b = ncol X" "list_all is_finite b"
  shows "is_finite (closed_form lambda (column h X j) (residual h X y b) (b ! j))"
    and "is_finite v \<Longrightarrow>
         axpy (residual h X y b) (column h X j) (dsub (b ! j) v) = residual h X y (b[j := v])"
proof -
  have "list_all is_finite (h ! sexp X)" "list_all is_finite (h ! y)"
    using f by (simp_all add: finite_inputs_def)
  then obtain M Y where M: "h ! sexp X = map Finite M" and Y: "h ! y = map Finite Y"
    using finite_list by blast
  have "is_finite lambda" using f by (simp add: finite_inputs_def)
  then obtain l where l: "lambda = Finite l" using is_finiteE by blast
  obtain B where B: "b = map Finite B" using b(2) finite_list by blast
  have lM: "length M = nrow X * ncol X"
    using X arg_cong [OF M, of length] by (simp add: valid_matrix_def)
  have lY: "length Y = nrow X"
    using y arg_cong [OF Y, of length] by (simp add: dims_match_def)
  have lB: "length B = ncol X" using b(1) B by simp
  have bj: "b ! j = Finite (B ! j)" using B lB j by simp
  define cj where "cj = map (\<lambda>i. M ! (i + j * nrow X)) [0..<nrow X]"
  define R where "R = map (\<lambda>i. Y ! i - sum_list (map (\<lambda>k. M ! (i + k * nrow X) * B ! k) [0..<ncol X]))
          [0..<nrow X]"
  have colF: "column h X j = map Finite cj"
    unfolding cj_def by (rule column_Finite [OF M lM j])
  have resF: "residual h X y b = map Finite R"
    unfolding R_def B by (rule residual_Finite [OF M lM Y lY lB])
  obtain u where "closed_form (Finite l) (map Finite cj) (map Finite R) (Finite (B ! j)) = Finite u"
    using closed_form_Finite by blast
  then have "closed_form lambda (column h X j) (residual h X y b) (b ! j) = Finite u"
    by (simp only: l colF resF bj)
  then show "is_finite (closed_form lambda (column h X j) (residual h X y b) (b ! j))"
    by simp
  show "axpy (residual h X y b) (column h X j) (dsub (b ! j) v) = residual h X y (b[j := v])"
    if v: "is_finite v"
  proof -
    obtain w where w: "v = Finite w" using v is_finiteE by blast
    have "map Finite B ! j = Finite (B ! j)" using lB j by simp
    then show ?thesis
      using residual_update [OF M lM Y lY lB j, of w]
      unfolding w B by (simp add: map_update)
  qed
qed

lemma inv_cd_step:
  assumes X: "valid_matrix h X" and y: "dims_match h X y" and f: "finite_inputs h X y lambda"
    and j: "j < ncol X" and inv: "inv_locals h X y s"
  shows "inv_locals h X y (cd_step lambda (column h X j) j s)"
proof -
  obtain b xj r mc where s: "s = (b, xj, r, mc)" by (cases s) auto
  have b: "length b = ncol X" "list_all is_finite b" and r: "r = residual h X y b"
    using inv s by (simp_all add: inv_locals_def)
  let ?v = "closed_form lambda (column h X j) (residual h X y b) (b ! j)"
  have v: "is_finite ?v" using closed_form_residual(1) [OF X y f j b] .
  have r': "axpy (residual h X y b) (column h X j) (dsub (b ! j) ?v) = residual h X y (b[j := ?v])"
    using closed_form_residual(2) [OF X y f j b v] .
  have "list_all is_finite (b[j := ?v])"
    using b(2) v by (auto simp: list_all_iff dest: subsetD [OF set_update_subset_insert])
  then show ?thesis
    using b r' by (simp add: s r cd_step_def inv_locals_def Let_def)
qed

lemma inv_foldl:
  assumes X: "valid_matrix h X" and y: "dims_match h X y" and f: "finite_inputs h X y lambda"
  shows "inv_locals h X y s \<Longrightarrow> \<forall>j\<in>set js. j < ncol X \<Longrightarrow>
         inv_locals h X y (foldl (\<lambda>s k. cd_step lambda (column h X k) k s) s js)"
  by (induction js arbitrary: s) (simp_all add: inv_cd_step [OF X y f])

lemma inv_cd_sweep:
  assumes X: "valid_matrix h X" and y: "dims_match h X y" and f: "finite_inputs h X y lambda"
    and inv: "inv_locals h X y s"
  shows "inv_locals h X y (cd_sweep lambda (column h X) (ncol X) s)"
proof -
  obtain b xj r mc where s: "s = (b, xj, r, mc)" by (cases s) auto
  have "inv_locals h X y (b, xj, r, Finite 0)" using inv s by (simp add: inv_locals_def)
  then show ?thesis
    unfolding s cd_sweep_def using inv_foldl [OF X y f, of _ "[0..<ncol X]"] by simp
qed

lemma inv_cd_loop:
  assumes X: "valid_matrix h X" and y: "dims_match h X y" and f: "finite_inputs h X y lambda"
  shows "inv_locals h X y s \<Longrightarrow> inv_locals h X y (cd_loop lambda (column h X) (ncol X) tol k s)"
  by (induction k arbitrary: s) (simp_all add: Let_def inv_cd_sweep [OF X y f])

lemma inv_initial:
  assumes X: "valid_matrix h X" and y: "dims_match h X y" and f: "finite_inputs h X y lambda"
  shows "inv_locals h X y (initial h X y)"
proof -
  have "list_all is_finite (h ! sexp X)" "list_all is_finite (h ! y)"
    using f by (simp_all add: finite_inputs_def)
  then obtain M Y where M: "h ! sexp X = map Finite M" and Y: "h ! y = map Finite Y"
    using finite_list by blast
  have lM: "length M = nrow X * ncol X"
    using X arg_cong [OF M, of length] by (simp add: valid_matrix_def)
  have lY: "length Y = nrow X"
    using y arg_cong [OF Y, of length] by (simp add: dims_match_def)
  show ?thesis
    using residual_initial [OF M lM Y lY]
    by (simp add: inv_locals_def initial_def list_all_iff)
qed

section \<open>Writes go to the local vectors only\<close>

lemma vec_set_frame:
  "vec_set h a i v = Inr h' \<Longrightarrow> m \<le> a \<Longrightarrow> take m h' = take m h"
  by (auto simp: vec_set_def split: if_splits)

lemma column_loop_frame:
  "column_loop X X_j n j i h = Inr h' \<Longrightarrow> m \<le> X_j \<Longrightarrow> take m h' = take m h"
proof (induction X X_j n j i h rule: column_loop.induct)
  case (1 X X_j n j i h)
  show ?case
  proof (cases "i < n")
    case True
    then obtain v h1 where v: "mat_get h X i j = Inr v" and h1: "vec_set h X_j i v = Inr h1"
      and r: "column_loop X X_j n j (i + 1) h1 = Inr h'"
      using "1.prems"(1) by (subst (asm) column_loop.simps) (auto split: sum.splits)
    have "take m h' = take m h1" using "1.IH" [OF True v h1 r "1.prems"(2)] .
    then show ?thesis using vec_set_frame [OF h1 "1.prems"(2)] by simp
  next
    case False
    then show ?thesis using "1.prems"(1) by (subst (asm) column_loop.simps) simp
  qed
qed

lemma import_loop_frame:
  "import_loop a e n i h = Inr h' \<Longrightarrow> m \<le> a \<Longrightarrow> take m h' = take m h"
proof (induction a e n i h rule: import_loop.induct)
  case (1 a e n i h)
  show ?case
  proof (cases "i < n")
    case True
    then obtain v h1 where v: "sugar_elem h e i = Inr v" and h1: "vec_set h a i v = Inr h1"
      and r: "import_loop a e n (i + 1) h1 = Inr h'"
      using "1.prems"(1) by (subst (asm) import_loop.simps) (auto split: sum.splits)
    have "take m h' = take m h1" using "1.IH" [OF True v h1 r "1.prems"(2)] .
    then show ?thesis using vec_set_frame [OF h1 "1.prems"(2)] by simp
  next
    case False
    then show ?thesis using "1.prems"(1) by (subst (asm) import_loop.simps) simp
  qed
qed

lemma coordinate_update_frame:
  assumes "coordinate_update X lambda beta X_j r n j s = Inr s'"
    and "m \<le> beta" "m \<le> X_j" "m \<le> r"
  shows "take m (fst s') = take m (fst s)"
proof -
  obtain h mc where s: "s = (h, mc)" by (cases s)
  obtain h1 z l h2 c h3 where
    h1: "column_loop X X_j n j 0 h = Inr h1"
    and h2: "vec_set h1 beta j (soft_threshold z l) = Inr h2"
    and h3: "assign_sugar h2 r c = Inr h3"
    and s': "fst s' = h3"
    using assms(1) unfolding s coordinate_update_def
    by (auto split: sum.splits prod.splits)
  have "take m h3 = take m h2"
    using h3 assms(4) import_loop_frame by (simp add: assign_sugar_def)
  also have "\<dots> = take m h1" using vec_set_frame [OF h2 assms(2)] .
  also have "\<dots> = take m h" using column_loop_frame [OF h1 assms(3)] .
  finally show ?thesis by (simp add: s s')
qed

lemma coordinate_loop_frame:
  "coordinate_loop X lambda beta X_j r n p j s = Inr s' \<Longrightarrow>
   m \<le> beta \<Longrightarrow> m \<le> X_j \<Longrightarrow> m \<le> r \<Longrightarrow> take m (fst s') = take m (fst s)"
proof (induction X lambda beta X_j r n p j s rule: coordinate_loop.induct)
  case (1 X lambda beta X_j r n p j s)
  show ?case
  proof (cases "j < p")
    case True
    then obtain s1 where s1: "coordinate_update X lambda beta X_j r n j s = Inr s1"
      and r: "coordinate_loop X lambda beta X_j r n p (j + 1) s1 = Inr s'"
      using "1.prems"(1) by (subst (asm) coordinate_loop.simps) (auto split: sum.splits)
    have "take m (fst s') = take m (fst s1)"
      using "1.IH" [OF True s1 r "1.prems"(2,3,4)] .
    then show ?thesis
      using coordinate_update_frame [OF s1 "1.prems"(2,3,4)] by simp
  next
    case False
    then show ?thesis using "1.prems"(1) by (subst (asm) coordinate_loop.simps) simp
  qed
qed

lemma sweep_loop_frame:
  "sweep_loop X lambda max_iter tol beta X_j r n p iter h = Inr h' \<Longrightarrow>
   m \<le> beta \<Longrightarrow> m \<le> X_j \<Longrightarrow> m \<le> r \<Longrightarrow> take m h' = take m h"
proof (induction X lambda max_iter tol beta X_j r n p iter h rule: sweep_loop.induct)
  case (1 X lambda max_iter tol beta X_j r n p iter h)
  show ?case
  proof (cases "iter < max_iter")
    case True
    then obtain h1 mc where
      s1: "coordinate_loop X lambda beta X_j r n p 0 (h, Finite 0) = Inr (h1, mc)"
      and r: "if dless mc tol then h' = h1
              else sweep_loop X lambda max_iter tol beta X_j r n p (iter + 1) h1 = Inr h'"
      using "1.prems"(1)
      by (subst (asm) sweep_loop.simps) (auto split: sum.splits prod.splits if_splits)
    have f1: "take m h1 = take m h"
      using coordinate_loop_frame [OF s1 "1.prems"(2,3,4)] by simp
    show ?thesis
    proof (cases "dless mc tol")
      case True
      then show ?thesis using r f1 by simp
    next
      case False
      then have "sweep_loop X lambda max_iter tol beta X_j r n p (iter + 1) h1 = Inr h'"
        using r by simp
      then have "take m h' = take m h1"
        using "1.IH" [OF \<open>iter < max_iter\<close> s1 refl False _ "1.prems"(2,3,4)] by simp
      then show ?thesis using f1 by simp
    qed
  next
    case False
    then show ?thesis using "1.prems"(1) by (subst (asm) sweep_loop.simps) simp
  qed
qed

lemma lasso_cda_cpp_frame:
  assumes "lasso_cda_cpp h X y lambda max_iter tol = Inr (h', beta)"
  shows "take (length h) h' = h \<and> beta = length h"
proof -
  let ?h3 = "(h @ [replicate (ncol X) (Finite 0)]) @ [replicate (nrow X) (Finite 0)]
       @ [((h @ [replicate (ncol X) (Finite 0)]) @ [replicate (nrow X) (Finite 0)]) ! y]"
  have r: "sweep_loop X lambda max_iter tol (length h) (Suc (length h)) (Suc (Suc (length h)))
            (nrow X) (ncol X) 0 ?h3 = Inr h'" and b: "beta = length h"
    using assms by (auto simp: lasso_cda_cpp_def alloc_def Let_def split: sum.splits)
  have "take (length h) h' = take (length h) ?h3"
    using sweep_loop_frame [OF r] by simp
  then show ?thesis using b by simp
qed

section \<open>The number of sweeps\<close>

lemma cd_loop_funpow:
  "cd_loop lambda col p tol k s = ((cd_sweep lambda col p) ^^ (sweep_count lambda col p tol k s)) s"
  by (induction k arbitrary: s) (simp_all add: Let_def change_of_def funpow_swap1)

lemma sweep_count_le: "sweep_count lambda col p tol k s \<le> k"
  by (induction k arbitrary: s) (simp_all add: Let_def)

lemma sweep_count_early:
  "sweep_count lambda col p tol k s < k \<Longrightarrow>
     0 < sweep_count lambda col p tol k s \<and> dless (change_of (cd_loop lambda col p tol k s)) tol"
proof (induction k arbitrary: s)
  case 0
  then show ?case by simp
next
  case (Suc k)
  let ?s1 = "cd_sweep lambda col p s"
  show ?case
  proof (cases "dless (change_of ?s1) tol")
    case True
    then show ?thesis by (simp add: Let_def change_of_def)
  next
    case False
    then have "sweep_count lambda col p tol k ?s1 < k"
      using Suc.prems by (simp add: Let_def)
    then have "dless (change_of (cd_loop lambda col p tol k ?s1)) tol"
      using Suc.IH [of ?s1] by simp
    then show ?thesis using False by (simp add: Let_def change_of_def)
  qed
qed

lemma sweep_count_min:
  "0 < i \<Longrightarrow> i < sweep_count lambda col p tol k s \<Longrightarrow>
     \<not> dless (change_of (((cd_sweep lambda col p) ^^ i) s)) tol"
proof (induction k arbitrary: s i)
  case 0
  then show ?case by simp
next
  case (Suc k)
  let ?s1 = "cd_sweep lambda col p s"
  have nd: "\<not> dless (change_of ?s1) tol" and c: "i < Suc (sweep_count lambda col p tol k ?s1)"
    using Suc.prems by (auto simp: Let_def split: if_splits)
  show ?case
  proof (cases "i = 1")
    case True
    then show ?thesis using nd by simp
  next
    case False
    then obtain i' where i': "i = Suc i'" "0 < i'" using Suc.prems(1) by (cases i) auto
    then have "\<not> dless (change_of (((cd_sweep lambda col p) ^^ i') ?s1)) tol"
      using Suc.IH [of i' ?s1] c by simp
    then show ?thesis using i' by (simp add: funpow_swap1)
  qed
qed

section \<open>Zero columns\<close>

lemma dmul_zero: "dmul (Finite 0) x = Finite 0 \<or> dmul (Finite 0) x = NaN"
  by (cases x) (simp_all add: inf_of_sign_def)

lemma foldl_dadd_zero_or_NaN:
  "acc = Finite 0 \<or> acc = NaN \<Longrightarrow> \<forall>x\<in>set xs. x = Finite 0 \<or> x = NaN \<Longrightarrow>
   foldl dadd acc xs = Finite 0 \<or> foldl dadd acc xs = NaN"
proof (induction xs arbitrary: acc)
  case Nil
  then show ?case by simp
next
  case (Cons x xs)
  have "dadd acc x = Finite 0 \<or> dadd acc x = NaN"
    using Cons.prems by auto
  then show ?case using Cons.IH [of "dadd acc x"] Cons.prems(2) by simp
qed

lemma dot_zeros: "dot (replicate n (Finite 0)) ys = Finite 0 \<or> dot (replicate n (Finite 0)) ys = NaN"
proof -
  have "x = Finite 0 \<or> x = NaN" if mem: "x \<in> set (map2 dmul (replicate n (Finite 0)) ys)" for x
  proof -
    obtain a y where ay: "(a, y) \<in> set (zip (replicate n (Finite 0)) ys)" and x: "x = dmul a y"
      using mem by auto
    have "a = Finite 0" using set_zip_leftD [OF ay] by simp
    then show ?thesis using x dmul_zero [of y] by simp
  qed
  then show ?thesis unfolding dot_def dsum_def by (intro foldl_dadd_zero_or_NaN) simp_all
qed

lemma dsum_zeros: "dsum (replicate n (Finite 0)) = Finite 0"
  unfolding dsum_def by (induction n) simp_all

lemma dot_zeros_zeros: "dot (replicate n (Finite 0)) (replicate n (Finite 0)) = Finite 0"
proof -
  have "map2 dmul (replicate n (Finite 0)) (replicate n (Finite 0)) = replicate n (Finite 0)"
    by (intro nth_equalityI) simp_all
  then show ?thesis by (simp only: dot_def dsum_zeros)
qed

lemma zero_column_args:
  "ddiv (dadd (dot (replicate n (Finite 0)) r) (dmul (Finite 0) bj)) (Finite 0) = NaN"
proof -
  have "dadd (dot (replicate n (Finite 0)) r) (dmul (Finite 0) bj) = Finite 0
      \<or> dadd (dot (replicate n (Finite 0)) r) (dmul (Finite 0) bj) = NaN"
    using dot_zeros [of n r] dmul_zero [of bj] by auto
  then show ?thesis by (auto simp: inf_of_sign_def)
qed

lemma closed_form_zero_column:
  "closed_form lambda (replicate n (Finite 0)) r bj = Finite 0"
  by (simp add: closed_form_def Let_def dot_zeros_zeros zero_column_args)

lemma dadd_zero [simp]: "dadd x (Finite 0) = x"
  by (cases x) simp_all

lemma axpy_zero_column:
  "length r = n \<Longrightarrow> axpy r (replicate n (Finite 0)) (Finite c) = r"
  by (intro nth_equalityI) (simp_all add: axpy_def)

lemma cd_step_zero_column:
  assumes "zero_column h X j" "j < length b" "b ! j = Finite 0" "k < length b"
  shows "fst (cd_step lambda (column h X k) k (b, xj, r, mc)) ! j = Finite 0"
proof (cases "k = j")
  case True
  then show ?thesis using assms
    by (simp add: cd_step_def Let_def zero_column_def closed_form_zero_column)
next
  case False
  then show ?thesis using assms by (simp add: cd_step_def Let_def)
qed

lemma replicate_2: "replicate 2 x = [x, x]"
  by (simp add: numeral_2_eq_2)


section \<open>Concrete runs\<close>

lemmas loop_simps = sum_loop.simps import_loop.simps column_loop.simps coordinate_loop.simps
  sweep_loop.simps

lemmas code_defs = lasso_cda_cpp_def alloc_def coordinate_update_def threshold_args_def
  sugar_sum_def assign_sugar_def vec_get_def vec_set_def mat_get_def soft_threshold_def
  dsub_def dmax_def Let_def

lemma upt_2: "[0..<2] = [0, Suc 0]"
  by (simp add: numeral_2_eq_2)

lemma shrink_dims: "length shrink_heap = 2" "nrow shrink_X = 2" "ncol shrink_X = 2"
  "Suc 2 = 3" "Suc 3 = 4"
  by (simp_all add: shrink_heap_def shrink_X_def)

lemma shrink_valid: "valid_matrix shrink_heap shrink_X" "dims_match shrink_heap shrink_X 1"
  "finite_inputs shrink_heap shrink_X 1 (Finite 1)"
  by (simp_all add: valid_matrix_def dims_match_def finite_inputs_def shrink_heap_def shrink_X_def)

lemma shrink_run:
  "lasso_cda_cpp shrink_heap shrink_X 1 (Finite 1) 1000 (Finite (1 / 1000000))
   = Inr (shrink_heap @ [[Finite 2, Finite (- 1)], [Finite 0, Finite 1], [Finite 1, Finite (- 1)]], 2)"
  by (simp add: shrink_heap_def shrink_X_def loop_simps code_defs replicate_2)

lemma shrink_sweep:
  "coordinate_loop shrink_X (Finite 1) 2 3 4 2 2 0
     (shrink_heap @ [[Finite 0, Finite 0], [Finite 0, Finite 0], [Finite 3, Finite (- 2)]], Finite 0)
   = Inr (shrink_heap @ [[Finite 2, Finite (- 1)], [Finite 0, Finite 1], [Finite 1, Finite (- 1)]],
          Finite 2)"
  by (simp add: shrink_heap_def shrink_X_def loop_simps code_defs)

lemma sweep_count_pos:
  "0 < k \<Longrightarrow> sweep_count lambda col p tol k s =
     (let s' = cd_sweep lambda col p s
      in if dless (change_of s') tol then 1 else Suc (sweep_count lambda col p tol (k - 1) s'))"
  by (cases k) (simp_all add: Let_def)

lemma shrink_cd_sweep:
  "cd_sweep (Finite 1) (column shrink_heap shrink_X) (ncol shrink_X)
     (initial shrink_heap shrink_X (Suc 0))
   = ([Finite 2, Finite (- 1)], [Finite 0, Finite 1], [Finite 1, Finite (- 1)], Finite 2)"
  "cd_sweep (Finite 1) (column shrink_heap shrink_X) (ncol shrink_X)
     ([Finite 2, Finite (- 1)], [Finite 0, Finite 1], [Finite 1, Finite (- 1)], Finite 2)
   = ([Finite 2, Finite (- 1)], [Finite 0, Finite 1], [Finite 1, Finite (- 1)], Finite 0)"
  by (simp_all add: shrink_heap_def shrink_X_def initial_def cd_sweep_def cd_step_def
      closed_form_def column_def dot_def dsum_def axpy_def soft_threshold_def dsub_def dmax_def
      Let_def upt_2 replicate_2)

lemma shrink_sweep_count:
  "sweep_count (Finite 1) (column shrink_heap shrink_X) (ncol shrink_X) (Finite (1 / 1000000))
     (nat 1000) (initial shrink_heap shrink_X 1) = Suc (Suc 0)"
  by (simp add: sweep_count_pos shrink_cd_sweep change_of_def)

lemma zero_at_cd_step:
  assumes "zero_column h X j" "j < ncol X" "k < ncol X" "zero_at X j s"
  shows "zero_at X j (cd_step lambda (column h X k) k s)"
proof -
  obtain b xj r mc where s: "s = (b, xj, r, mc)" by (cases s) auto
  have l: "length b = ncol X" and z: "b ! j = Finite 0"
    using assms(4) s by (simp_all add: zero_at_def)
  have "fst (cd_step lambda (column h X k) k (b, xj, r, mc)) ! j = Finite 0"
    using cd_step_zero_column [OF assms(1), of b k lambda xj r mc] assms(2,3) l z by simp
  moreover have "length (fst (cd_step lambda (column h X k) k (b, xj, r, mc))) = ncol X"
    using l by (simp add: cd_step_def Let_def)
  ultimately show ?thesis by (simp add: zero_at_def s)
qed

lemma zero_at_foldl:
  assumes "zero_column h X j" "j < ncol X"
  shows "zero_at X j s \<Longrightarrow> \<forall>k\<in>set ks. k < ncol X \<Longrightarrow>
         zero_at X j (foldl (\<lambda>s k. cd_step lambda (column h X k) k s) s ks)"
  by (induction ks arbitrary: s) (simp_all add: zero_at_cd_step [OF assms])

lemma zero_at_cd_sweep:
  assumes "zero_column h X j" "j < ncol X" "zero_at X j s"
  shows "zero_at X j (cd_sweep lambda (column h X) (ncol X) s)"
proof -
  obtain b xj r mc where s: "s = (b, xj, r, mc)" by (cases s) auto
  have "zero_at X j (b, xj, r, Finite 0)" using assms(3) s by (simp add: zero_at_def)
  then show ?thesis
    unfolding s cd_sweep_def using zero_at_foldl [OF assms(1,2), of _ "[0..<ncol X]"] by simp
qed

lemma zero_at_cd_loop:
  assumes "zero_column h X j" "j < ncol X"
  shows "zero_at X j s \<Longrightarrow> zero_at X j (cd_loop lambda (column h X) (ncol X) tol k s)"
  by (induction k arbitrary: s) (simp_all add: Let_def zero_at_cd_sweep [OF assms])

lemma wf_cd_loop:
  "wf_locals X s \<Longrightarrow> wf_locals X (cd_loop lambda (column h X) (ncol X) tol k s)"
  by (induction k arbitrary: s) (simp_all add: Let_def wf_cd_sweep)

lemma degenerate_valid: "valid_matrix degenerate_heap degenerate_X"
  "dims_match degenerate_heap degenerate_X 1" "0 < ncol degenerate_X"
  "zero_column degenerate_heap degenerate_X 0"
  by (simp_all add: valid_matrix_def dims_match_def zero_column_def column_def
      degenerate_heap_def degenerate_X_def upt_2 replicate_2)

lemma degenerate_dims: "length degenerate_heap = 2" "nrow degenerate_X = 2"
  "ncol degenerate_X = 2"
  by (simp_all add: degenerate_heap_def degenerate_X_def)

lemma degenerate_run:
  "lasso_cda_cpp degenerate_heap degenerate_X 1 (Finite 1) 1000 (Finite (1 / 1000000))
   = Inr (degenerate_heap @ [[Finite 0, Finite (3 / 2)], [Finite 1, Finite 1],
                             [Finite (3 / 2), Finite (- (1 / 2))]], 2)"
  by (simp add: degenerate_heap_def degenerate_X_def loop_simps code_defs replicate_2
      inf_of_sign_def)

lemma degenerate_args:
  "column_loop degenerate_X 3 2 0 0
     (degenerate_heap @ [[Finite 0, Finite 0], [Finite 0, Finite 0], [Finite 3, Finite 1]])
   = Inr (degenerate_heap @ [[Finite 0, Finite 0], [Finite 0, Finite 0], [Finite 3, Finite 1]])"
  "threshold_args
     (degenerate_heap @ [[Finite 0, Finite 0], [Finite 0, Finite 0], [Finite 3, Finite 1]])
     (Finite 1) 2 3 4 0
   = Inr (NaN, PosInf)"
  by (simp_all add: degenerate_heap_def degenerate_X_def loop_simps code_defs inf_of_sign_def)

lemma invalid_runs:
  "lasso_cda_cpp [[Finite 1, Finite 0, Finite 0, Finite 1], [Finite 3]] shrink_X 1
     (Finite (- 1)) 0 (Finite (- 1))
   = Inr ([[Finite 1, Finite 0, Finite 0, Finite 1], [Finite 3],
           [Finite 0, Finite 0], [Finite 0, Finite 0], [Finite 3]], 2)"
  "lasso_cda_cpp shrink_heap shrink_X 1 (Finite (- 1)) 1 (Finite (- 1))
   = Inr (shrink_heap @ [[Finite 4, Finite (- 3)], [Finite 0, Finite 1],
                         [Finite (- 1), Finite 1]], 2)"
  by (simp_all add: shrink_heap_def shrink_X_def loop_simps code_defs replicate_2)


section \<open>Properties\<close>

text \<open>
  C1. In every sweep the coordinates are taken in the ascending order \<open>0, ..., p - 1\<close>, and
  the update of coordinate \<open>j\<close> computes \<open>rho = X_j \<cdot> r + \<parallel>X_j\<parallel>\<^sup>2 * beta_j\<close> from the
  current residual and coefficient and sets \<open>beta_j\<close> to
  \<open>soft_threshold (rho / \<parallel>X_j\<parallel>\<^sup>2) (lambda / \<parallel>X_j\<parallel>\<^sup>2)\<close>. The state is that of a call made
  in heap \<open>h\<close>, whose three local vectors \<open>b\<close>, \<open>xj\<close> and \<open>r\<close> follow the objects of \<open>h\<close>.
\<close>

theorem coordinate_update_closed_form:
  assumes "valid_matrix h X" and "length b = ncol X" and "length xj = nrow X"
    and "length r = nrow X"
  shows "(\<forall>j mc. j < ncol X \<longrightarrow>
            coordinate_update X lambda (length h) (Suc (length h)) (Suc (Suc (length h)))
              (nrow X) j (h @ [b, xj, r], mc)
            = (let x = column h X j;
                   norm2 = dot x x;
                   rho = dadd (dot x r) (dmul norm2 (b ! j));
                   beta_j = soft_threshold (ddiv rho norm2) (ddiv lambda norm2)
               in Inr (h @ [b[j := beta_j], x, axpy r x (dsub (b ! j) beta_j)],
                       dmax mc (dabs (dsub beta_j (b ! j))))))
       \<and> coordinate_loop X lambda (length h) (Suc (length h)) (Suc (Suc (length h)))
           (nrow X) (ncol X) 0 (h @ [b, xj, r], Finite 0)
         = (let s = foldl (\<lambda>s j. cd_step lambda (column h X j) j s) (b, xj, r, Finite 0)
                      [0..<ncol X]
            in Inr (heap_of h s, change_of s))"
proof (intro conjI allI impI)
  fix j mc
  assume j: "j < ncol X"
  have wf: "wf_locals X (b, xj, r, mc)" using assms by (simp add: wf_locals_def)
  show "coordinate_update X lambda (length h) (Suc (length h)) (Suc (Suc (length h)))
              (nrow X) j (h @ [b, xj, r], mc)
            = (let x = column h X j;
                   norm2 = dot x x;
                   rho = dadd (dot x r) (dmul norm2 (b ! j));
                   beta_j = soft_threshold (ddiv rho norm2) (ddiv lambda norm2)
               in Inr (h @ [b[j := beta_j], x, axpy r x (dsub (b ! j) beta_j)],
                       dmax mc (dabs (dsub beta_j (b ! j)))))"
    using coordinate_update_correct [OF assms(1) j wf, of lambda]
    by (simp add: heap_of_def change_of_def cd_step_def closed_form_def Let_def)
next
  have wf: "wf_locals X (b, xj, r, Finite 0)" using assms by (simp add: wf_locals_def)
  show "coordinate_loop X lambda (length h) (Suc (length h)) (Suc (Suc (length h)))
           (nrow X) (ncol X) 0 (h @ [b, xj, r], Finite 0)
         = (let s = foldl (\<lambda>s j. cd_step lambda (column h X j) j s) (b, xj, r, Finite 0)
                      [0..<ncol X]
            in Inr (heap_of h s, change_of s))"
    using coordinate_loop_correct [OF assms(1) wf, of 0 lambda]
    by (simp add: heap_of_def change_of_def)
qed

theorem coordinate_update_closed_form_witness:
  "valid_matrix shrink_heap shrink_X
   \<and> coordinate_update shrink_X (Finite 1) 2 3 4 2 0
       (shrink_heap @ [[Finite 0, Finite 0], [Finite 0, Finite 0], [Finite 3, Finite (- 2)]],
        Finite 0)
     = Inr (shrink_heap @ [[Finite 2, Finite 0], [Finite 1, Finite 0], [Finite 1, Finite (- 2)]],
            Finite 2)
   \<and> coordinate_loop shrink_X (Finite 1) 2 3 4 2 2 0
       (shrink_heap @ [[Finite 0, Finite 0], [Finite 0, Finite 0], [Finite 3, Finite (- 2)]],
        Finite 0)
     = Inr (shrink_heap @ [[Finite 2, Finite (- 1)], [Finite 0, Finite 1],
                           [Finite 1, Finite (- 1)]], Finite 2)"
proof -
  have l: "length [Finite 0, Finite 0] = ncol shrink_X" "length [Finite 0, Finite 0] = nrow shrink_X"
    "length [Finite 3, Finite (- 2)] = nrow shrink_X"
    by (simp_all add: shrink_X_def)
  note t = coordinate_update_closed_form [OF shrink_valid(1) l, of "Finite 1", unfolded shrink_dims]
  have a: "coordinate_update shrink_X (Finite 1) 2 3 4 2 0
       (shrink_heap @ [[Finite 0, Finite 0], [Finite 0, Finite 0], [Finite 3, Finite (- 2)]],
        Finite 0)
     = Inr (shrink_heap @ [[Finite 2, Finite 0], [Finite 1, Finite 0], [Finite 1, Finite (- 2)]],
            Finite 2)"
    using t [THEN conjunct1, THEN spec, THEN spec, THEN mp, of 0 "Finite 0"]
    by (simp add: shrink_heap_def shrink_X_def column_def dot_def dsum_def axpy_def
        soft_threshold_def dsub_def dmax_def Let_def upt_2)
  have b: "coordinate_loop shrink_X (Finite 1) 2 3 4 2 2 0
       (shrink_heap @ [[Finite 0, Finite 0], [Finite 0, Finite 0], [Finite 3, Finite (- 2)]],
        Finite 0)
     = Inr (shrink_heap @ [[Finite 2, Finite (- 1)], [Finite 0, Finite 1],
                           [Finite 1, Finite (- 1)]], Finite 2)"
    using t [THEN conjunct2]
    by (simp add: shrink_heap_def shrink_X_def column_def dot_def dsum_def axpy_def
        cd_step_def closed_form_def heap_of_def change_of_def
        soft_threshold_def dsub_def dmax_def Let_def upt_2)
  show ?thesis using shrink_valid(1) a b by simp
qed

text \<open>
  C2. For every threshold \<open>l \<ge> 0\<close> and every real \<open>z\<close>, \<open>soft_threshold\<close> returns
  \<open>z - l\<close> when \<open>z > l\<close>, \<open>z + l\<close> when \<open>z < -l\<close>, and \<open>0\<close> when \<open>|z| \<le> l\<close>;
  with threshold \<open>0\<close> it is the identity on the reals.
\<close>

theorem soft_threshold_piecewise:
  assumes "0 \<le> l"
  shows "(l < z \<longrightarrow> soft_threshold (Finite z) (Finite l) = Finite (z - l))
       \<and> (z < - l \<longrightarrow> soft_threshold (Finite z) (Finite l) = Finite (z + l))
       \<and> (\<bar>z\<bar> \<le> l \<longrightarrow> soft_threshold (Finite z) (Finite l) = Finite 0)
       \<and> soft_threshold (Finite z) (Finite 0) = Finite z"
  using assms by (auto simp: soft_threshold_def dsub_def)

theorem soft_threshold_piecewise_witness:
  "soft_threshold (Finite 3) (Finite 1) = Finite 2
   \<and> soft_threshold (Finite (- 2)) (Finite 1) = Finite (- 1)
   \<and> soft_threshold (Finite (1 / 2)) (Finite 1) = Finite 0
   \<and> soft_threshold (Finite 7) (Finite 0) = Finite 7"
  using soft_threshold_piecewise [of 1 3] soft_threshold_piecewise [of 1 "- 2"]
    soft_threshold_piecewise [of 1 "1 / 2"] soft_threshold_piecewise [of 1 7]
  by simp

text \<open>
  C3. With finite inputs the residual invariant \<open>r = y - X\<beta>\<close> holds exactly throughout a
  call: it holds when the loop is entered, where \<open>\<beta>\<close> is zero and \<open>r\<close> is a copy of
  \<open>y\<close>; every coordinate update started in a state that satisfies it ends in a state
  that satisfies it; and it holds in the state the call leaves.
\<close>

theorem residual_invariant_preserved:
  assumes "valid_matrix h X" and "dims_match h X y" and "finite_inputs h X y lambda"
  shows "residual h X y (replicate (ncol X) (Finite 0)) = h ! y
       \<and> (\<forall>b xj j mc.
             length b = ncol X \<and> list_all is_finite b \<and> length xj = nrow X \<and> j < ncol X \<longrightarrow>
             (\<exists>b' xj' mc'.
                coordinate_update X lambda (length h) (Suc (length h)) (Suc (Suc (length h)))
                  (nrow X) j (h @ [b, xj, residual h X y b], mc)
                = Inr (h @ [b', xj', residual h X y b'], mc')
                \<and> length b' = ncol X \<and> list_all is_finite b'))
       \<and> (\<exists>b xj. lasso_cda_cpp h X y lambda max_iter tol
                   = Inr (h @ [b, xj, residual h X y b], length h))"
proof (intro conjI allI impI)
  show "residual h X y (replicate (ncol X) (Finite 0)) = h ! y"
    using inv_initial [OF assms] by (simp add: inv_locals_def initial_def)
next
  fix b xj :: "dbl list" and j :: nat and mc :: dbl
  assume a: "length b = ncol X \<and> list_all is_finite b \<and> length xj = nrow X \<and> j < ncol X"
  let ?s = "(b, xj, residual h X y b, mc)"
  have j: "j < ncol X" using a by simp
  have inv: "inv_locals h X y ?s" using a by (simp add: inv_locals_def)
  have wf: "wf_locals X ?s"
    using a assms(2) by (simp add: wf_locals_def length_residual dims_match_def)
  obtain b' xj' r' mc' where s': "cd_step lambda (column h X j) j ?s = (b', xj', r', mc')"
    by (cases "cd_step lambda (column h X j) j ?s") auto
  have "inv_locals h X y (b', xj', r', mc')"
    using inv_cd_step [OF assms j inv] s' by simp
  then have r': "r' = residual h X y b'" and b': "length b' = ncol X" "list_all is_finite b'"
    by (simp_all add: inv_locals_def)
  have "coordinate_update X lambda (length h) (Suc (length h)) (Suc (Suc (length h)))
          (nrow X) j (h @ [b, xj, residual h X y b], mc)
        = Inr (h @ [b', xj', residual h X y b'], mc')"
    using coordinate_update_correct [OF assms(1) j wf, of lambda] s' r'
    by (simp add: heap_of_def change_of_def)
  then show "\<exists>b' xj' mc'.
                coordinate_update X lambda (length h) (Suc (length h)) (Suc (Suc (length h)))
                  (nrow X) j (h @ [b, xj, residual h X y b], mc)
                = Inr (h @ [b', xj', residual h X y b'], mc')
                \<and> length b' = ncol X \<and> list_all is_finite b'"
    using b' by blast
next
  let ?s = "cd_loop lambda (column h X) (ncol X) tol (nat max_iter) (initial h X y)"
  obtain b xj r mc where s: "?s = (b, xj, r, mc)" by (cases ?s) auto
  have "inv_locals h X y ?s"
    using inv_cd_loop [OF assms inv_initial [OF assms]] .
  then have "r = residual h X y b" using s by (simp add: inv_locals_def)
  then have "lasso_cda_cpp h X y lambda max_iter tol
               = Inr (h @ [b, xj, residual h X y b], length h)"
    using lasso_cda_cpp_correct [OF assms(1,2), of lambda max_iter tol] s
    by (simp add: heap_of_def)
  then show "\<exists>b xj. lasso_cda_cpp h X y lambda max_iter tol
                   = Inr (h @ [b, xj, residual h X y b], length h)"
    by blast
qed

theorem residual_invariant_preserved_witness:
  "valid_matrix shrink_heap shrink_X \<and> dims_match shrink_heap shrink_X 1
   \<and> finite_inputs shrink_heap shrink_X 1 (Finite 1)
   \<and> residual shrink_heap shrink_X 1 [Finite 0, Finite 0] = [Finite 3, Finite (- 2)]
   \<and> (\<exists>b' xj' mc'.
         coordinate_update shrink_X (Finite 1) 2 3 4 2 0
           (shrink_heap @ [[Finite 0, Finite 0], [Finite 0, Finite 0],
                           residual shrink_heap shrink_X 1 [Finite 0, Finite 0]], Finite 0)
         = Inr (shrink_heap @ [b', xj', residual shrink_heap shrink_X 1 b'], mc')
         \<and> length b' = 2 \<and> list_all is_finite b')
   \<and> (\<exists>b xj. lasso_cda_cpp shrink_heap shrink_X 1 (Finite 1) 1000 (Finite (1 / 1000000))
               = Inr (shrink_heap @ [b, xj, residual shrink_heap shrink_X 1 b], 2))"
proof -
  note t = residual_invariant_preserved [OF shrink_valid, of 1000 "Finite (1 / 1000000)",
      unfolded shrink_dims]
  have a: "residual shrink_heap shrink_X 1 [Finite 0, Finite 0] = [Finite 3, Finite (- 2)]"
    using t [THEN conjunct1] by (simp add: replicate_2 shrink_heap_def)
  have b: "\<exists>b' xj' mc'.
         coordinate_update shrink_X (Finite 1) 2 3 4 2 0
           (shrink_heap @ [[Finite 0, Finite 0], [Finite 0, Finite 0],
                           residual shrink_heap shrink_X 1 [Finite 0, Finite 0]], Finite 0)
         = Inr (shrink_heap @ [b', xj', residual shrink_heap shrink_X 1 b'], mc')
         \<and> length b' = 2 \<and> list_all is_finite b'"
    using t [THEN conjunct2, THEN conjunct1, THEN spec, THEN spec, THEN spec, THEN spec,
        THEN mp, of "[Finite 0, Finite 0]" "[Finite 0, Finite 0]" 0 "Finite 0"]
    by simp
  show ?thesis using shrink_valid a b t [THEN conjunct2, THEN conjunct2] by simp
qed

text \<open>
  C4. A call with well-formed inputs returns: the loop over the sweeps is a total
  function. The coefficient vector it returns has length \<open>p\<close> and is the result of \<open>k\<close>
  full sweeps, where \<open>k\<close> is at most \<open>max_iter\<close>; none of the sweeps before the last had a
  largest change below \<open>tol\<close>; and when fewer than \<open>max_iter\<close> sweeps were made the last
  one had. When \<open>max_iter\<close> sweeps were made the vector is returned all the same.
\<close>

theorem lasso_cda_cpp_sweeps:
  assumes "valid_matrix h X" and "dims_match h X y"
  shows "(let sweep = cd_sweep lambda (column h X) (ncol X);
              s0 = initial h X y;
              k = sweep_count lambda (column h X) (ncol X) tol (nat max_iter) s0
          in lasso_cda_cpp h X y lambda max_iter tol = Inr (heap_of h ((sweep ^^ k) s0), length h)
             \<and> length (fst ((sweep ^^ k) s0)) = ncol X
             \<and> int k \<le> max 0 max_iter
             \<and> (\<forall>i. 0 < i \<and> i < k \<longrightarrow> \<not> dless (change_of ((sweep ^^ i) s0)) tol)
             \<and> (int k < max_iter \<longrightarrow> 0 < k \<and> dless (change_of ((sweep ^^ k) s0)) tol))"
proof -
  let ?sweep = "cd_sweep lambda (column h X) (ncol X)"
  let ?s0 = "initial h X y"
  let ?k = "sweep_count lambda (column h X) (ncol X) tol (nat max_iter) ?s0"
  have loop: "cd_loop lambda (column h X) (ncol X) tol (nat max_iter) ?s0 = (?sweep ^^ ?k) ?s0"
    by (rule cd_loop_funpow)
  have wf0: "wf_locals X ?s0"
    using assms(2) by (simp add: wf_locals_def initial_def dims_match_def)
  have wf: "wf_locals X ((?sweep ^^ n) ?s0)" for n
    by (induction n) (simp_all add: wf0 wf_cd_sweep)
  have 1: "lasso_cda_cpp h X y lambda max_iter tol = Inr (heap_of h ((?sweep ^^ ?k) ?s0), length h)"
    using lasso_cda_cpp_correct [OF assms, of lambda max_iter tol] loop by simp
  have 2: "length (fst ((?sweep ^^ ?k) ?s0)) = ncol X"
    using wf [of ?k] by (cases "(?sweep ^^ ?k) ?s0") (simp add: wf_locals_def)
  have 3: "int ?k \<le> max 0 max_iter"
    using sweep_count_le [of lambda "column h X" "ncol X" tol "nat max_iter" ?s0] by simp
  have 4: "\<forall>i. 0 < i \<and> i < ?k \<longrightarrow> \<not> dless (change_of ((?sweep ^^ i) ?s0)) tol"
    using sweep_count_min by blast
  have 5: "int ?k < max_iter \<longrightarrow> 0 < ?k \<and> dless (change_of ((?sweep ^^ ?k) ?s0)) tol"
  proof
    assume "int ?k < max_iter"
    then have "?k < nat max_iter" by simp
    then show "0 < ?k \<and> dless (change_of ((?sweep ^^ ?k) ?s0)) tol"
      using sweep_count_early [of lambda "column h X" "ncol X" tol "nat max_iter" ?s0] loop
      by simp
  qed
  show ?thesis unfolding Let_def using 1 2 3 4 5 by blast
qed

theorem lasso_cda_cpp_sweeps_witness:
  "valid_matrix shrink_heap shrink_X \<and> dims_match shrink_heap shrink_X 1
   \<and> lasso_cda_cpp shrink_heap shrink_X 1 (Finite 1) 1000 (Finite (1 / 1000000))
     = Inr (shrink_heap @ [[Finite 2, Finite (- 1)], [Finite 0, Finite 1],
                           [Finite 1, Finite (- 1)]], length shrink_heap)
   \<and> sweep_count (Finite 1) (column shrink_heap shrink_X) (ncol shrink_X) (Finite (1 / 1000000))
       (nat 1000) (initial shrink_heap shrink_X 1) = Suc (Suc 0)
   \<and> int (Suc (Suc 0)) \<le> max 0 1000
   \<and> \<not> dless (change_of ((cd_sweep (Finite 1) (column shrink_heap shrink_X) (ncol shrink_X)
                               ^^ Suc 0) (initial shrink_heap shrink_X 1)))
           (Finite (1 / 1000000))
   \<and> dless (change_of ((cd_sweep (Finite 1) (column shrink_heap shrink_X) (ncol shrink_X)
                               ^^ Suc (Suc 0)) (initial shrink_heap shrink_X 1)))
           (Finite (1 / 1000000))"
proof -
  note t = lasso_cda_cpp_sweeps [OF shrink_valid(1,2), of "Finite 1" "Finite (1 / 1000000)" 1000,
      unfolded Let_def shrink_sweep_count]
  have a: "lasso_cda_cpp shrink_heap shrink_X 1 (Finite 1) 1000 (Finite (1 / 1000000))
     = Inr (shrink_heap @ [[Finite 2, Finite (- 1)], [Finite 0, Finite 1],
                           [Finite 1, Finite (- 1)]], length shrink_heap)"
    using t [THEN conjunct1] by (simp add: shrink_cd_sweep heap_of_def)
  have b: "\<not> dless (change_of ((cd_sweep (Finite 1) (column shrink_heap shrink_X) (ncol shrink_X)
                               ^^ Suc 0) (initial shrink_heap shrink_X 1)))
           (Finite (1 / 1000000))"
    using t [THEN conjunct2, THEN conjunct2, THEN conjunct2, THEN conjunct1, THEN spec,
        THEN mp, of "Suc 0"] by simp
  have c: "dless (change_of ((cd_sweep (Finite 1) (column shrink_heap shrink_X) (ncol shrink_X)
                               ^^ Suc (Suc 0)) (initial shrink_heap shrink_X 1)))
           (Finite (1 / 1000000))"
    using t [THEN conjunct2, THEN conjunct2, THEN conjunct2, THEN conjunct2, THEN mp] by simp
  show ?thesis using shrink_valid(1,2) shrink_sweep_count a b c by simp
qed

text \<open>
  C5. The code validates none of its inputs and rejects no call. The statement that
  every call with mismatched dimensions, a negative \<open>lambda\<close>, a non-positive
  \<open>max_iter\<close> or a negative \<open>tol\<close> is rejected before the loop fails: a call with all
  four (\<open>y\<close> of length 1 for a matrix of 2 rows, \<open>lambda = -1\<close>, \<open>max_iter = 0\<close>,
  \<open>tol = -1\<close>) returns the zero vector, and a call with \<open>lambda = -1\<close> and \<open>tol = -1\<close>
  runs its sweep and returns \<open>[4, -3]\<close>.
\<close>

theorem invalid_inputs_not_rejected:
  "lasso_cda_cpp [[Finite 1, Finite 0, Finite 0, Finite 1], [Finite 3]] shrink_X 1
     (Finite (- 1)) 0 (Finite (- 1))
   = Inr ([[Finite 1, Finite 0, Finite 0, Finite 1], [Finite 3],
           [Finite 0, Finite 0], [Finite 0, Finite 0], [Finite 3]], 2)
   \<and> length [Finite 3 :: dbl] \<noteq> nrow shrink_X
   \<and> lasso_cda_cpp shrink_heap shrink_X 1 (Finite (- 1)) 1 (Finite (- 1))
     = Inr (shrink_heap @ [[Finite 4, Finite (- 3)], [Finite 0, Finite 1],
                           [Finite (- 1), Finite 1]], 2)"
  using invalid_runs by (simp add: shrink_X_def)

text \<open>
  C5, as the code has it. Whenever the number of rows of the matrix is the length of
  \<open>y\<close>, the call returns a coefficient vector of length \<open>p\<close>, for every \<open>lambda\<close>,
  \<open>max_iter\<close> and \<open>tol\<close>: negative, zero, infinite or \<open>NaN\<close>.
\<close>

theorem lasso_cda_cpp_accepts_every_parameter:
  assumes "valid_matrix h X" and "dims_match h X y"
  shows "\<exists>b xj r. lasso_cda_cpp h X y lambda max_iter tol = Inr (h @ [b, xj, r], length h)
                \<and> length b = ncol X"
proof -
  let ?s = "cd_loop lambda (column h X) (ncol X) tol (nat max_iter) (initial h X y)"
  obtain b xj r mc where s: "?s = (b, xj, r, mc)" by (cases ?s) auto
  have "wf_locals X (initial h X y)"
    using assms(2) by (simp add: wf_locals_def initial_def dims_match_def)
  then have "wf_locals X ?s" by (rule wf_cd_loop)
  then have "length b = ncol X" using s by (simp add: wf_locals_def)
  moreover have "lasso_cda_cpp h X y lambda max_iter tol = Inr (h @ [b, xj, r], length h)"
    using lasso_cda_cpp_correct [OF assms, of lambda max_iter tol] s by (simp add: heap_of_def)
  ultimately show ?thesis by blast
qed

theorem lasso_cda_cpp_accepts_every_parameter_witness:
  "valid_matrix shrink_heap shrink_X \<and> dims_match shrink_heap shrink_X 1
   \<and> (\<exists>b xj r. lasso_cda_cpp shrink_heap shrink_X 1 (Finite (- 1)) (- 5) NaN
                 = Inr (shrink_heap @ [b, xj, r], length shrink_heap)
               \<and> length b = ncol shrink_X)"
  using shrink_valid(1,2)
    lasso_cda_cpp_accepts_every_parameter [OF shrink_valid(1,2), of "Finite (- 1)" "- 5" NaN]
  by simp

text \<open>
  C6. The division by the squared norm is not guarded. The statement that the code
  produces no \<open>NaN\<close> for a zero column, and skips the update or raises an error, fails:
  for \<open>X = [[0,1],[0,1]]\<close>, \<open>y = [3,1]\<close> and \<open>lambda = 1\<close> the first update of coordinate 0
  calls \<open>soft_threshold\<close> with the arguments \<open>0/0 = NaN\<close> and \<open>1/0 = +\<infinity>\<close>, and the call
  returns a vector without any error.
\<close>

theorem zero_column_division_not_guarded:
  "column_loop degenerate_X 3 2 0 0
     (degenerate_heap @ [[Finite 0, Finite 0], [Finite 0, Finite 0], [Finite 3, Finite 1]])
   = Inr (degenerate_heap @ [[Finite 0, Finite 0], [Finite 0, Finite 0], [Finite 3, Finite 1]])
   \<and> threshold_args
       (degenerate_heap @ [[Finite 0, Finite 0], [Finite 0, Finite 0], [Finite 3, Finite 1]])
       (Finite 1) 2 3 4 0
     = Inr (NaN, PosInf)
   \<and> lasso_cda_cpp degenerate_heap degenerate_X 1 (Finite 1) 1000 (Finite (1 / 1000000))
     = Inr (degenerate_heap @ [[Finite 0, Finite (3 / 2)], [Finite 1, Finite 1],
                               [Finite (3 / 2), Finite (- (1 / 2))]], 2)"
  using degenerate_args degenerate_run by simp

text \<open>
  C6, as the code has it. When column \<open>j\<close> of the matrix is zero, the update of
  coordinate \<open>j\<close> divides by the squared norm 0: the first argument of \<open>soft_threshold\<close>
  is \<open>NaN\<close> and the second is \<open>lambda / 0\<close>. Both comparisons of \<open>soft_threshold\<close> are false
  on \<open>NaN\<close>, so it returns 0: the update sets \<open>beta_j\<close> to 0 and, \<open>beta_j\<close> being finite,
  leaves the residual as it was. No error is signalled, and the coefficient \<open>j\<close> of the
  vector that the call returns is 0.
\<close>

theorem zero_column_update:
  assumes "valid_matrix h X" and "dims_match h X y" and "j < ncol X" and "zero_column h X j"
  shows "(\<forall>b xj r mc.
            length b = ncol X \<and> length xj = nrow X \<and> length r = nrow X \<and> is_finite (b ! j) \<longrightarrow>
            threshold_args (h @ [b, column h X j, r]) lambda (length h) (Suc (length h))
              (Suc (Suc (length h))) j
            = Inr (NaN, ddiv lambda (Finite 0))
            \<and> coordinate_update X lambda (length h) (Suc (length h)) (Suc (Suc (length h)))
                (nrow X) j (h @ [b, xj, r], mc)
              = Inr (h @ [b[j := Finite 0], column h X j, r],
                     dmax mc (dabs (dsub (Finite 0) (b ! j)))))
       \<and> (\<exists>b xj r. lasso_cda_cpp h X y lambda max_iter tol = Inr (h @ [b, xj, r], length h)
                   \<and> b ! j = Finite 0)"
proof (intro conjI allI impI)
  fix b xj r :: "dbl list" and mc :: dbl
  assume a: "length b = ncol X \<and> length xj = nrow X \<and> length r = nrow X \<and> is_finite (b ! j)"
  have col: "column h X j = replicate (nrow X) (Finite 0)"
    using assms(4) by (simp add: zero_column_def)
  obtain c where c: "b ! j = Finite c" using a is_finiteE by blast
  show "threshold_args (h @ [b, column h X j, r]) lambda (length h) (Suc (length h))
              (Suc (Suc (length h))) j
            = Inr (NaN, ddiv lambda (Finite 0))"
    using threshold_args_correct [of "column h X j" r j b h lambda] a assms(3)
    by (simp add: col dot_zeros_zeros zero_column_args)
  have wf: "wf_locals X (b, xj, r, mc)" using a by (simp add: wf_locals_def)
  show "coordinate_update X lambda (length h) (Suc (length h)) (Suc (Suc (length h)))
                (nrow X) j (h @ [b, xj, r], mc)
              = Inr (h @ [b[j := Finite 0], column h X j, r],
                     dmax mc (dabs (dsub (Finite 0) (b ! j))))"
    using coordinate_update_correct [OF assms(1,3) wf, of lambda] a
    by (simp add: heap_of_def change_of_def cd_step_def Let_def col closed_form_zero_column
        c dsub_def axpy_zero_column)
next
  let ?s = "cd_loop lambda (column h X) (ncol X) tol (nat max_iter) (initial h X y)"
  obtain b xj r mc where s: "?s = (b, xj, r, mc)" by (cases ?s) auto
  have "zero_at X j (initial h X y)"
    using assms(3) by (simp add: zero_at_def initial_def)
  then have "zero_at X j ?s" by (rule zero_at_cd_loop [OF assms(4,3)])
  then have "b ! j = Finite 0" using s by (simp add: zero_at_def)
  moreover have "lasso_cda_cpp h X y lambda max_iter tol = Inr (h @ [b, xj, r], length h)"
    using lasso_cda_cpp_correct [OF assms(1,2), of lambda max_iter tol] s
    by (simp add: heap_of_def)
  ultimately show "\<exists>b xj r. lasso_cda_cpp h X y lambda max_iter tol = Inr (h @ [b, xj, r], length h)
                   \<and> b ! j = Finite 0"
    by blast
qed

theorem zero_column_update_witness:
  "valid_matrix degenerate_heap degenerate_X \<and> dims_match degenerate_heap degenerate_X 1
   \<and> 0 < ncol degenerate_X \<and> zero_column degenerate_heap degenerate_X 0
   \<and> threshold_args
       (degenerate_heap @ [[Finite 5, Finite 7], column degenerate_heap degenerate_X 0,
                           [Finite 3, Finite 1]]) (Finite 1) 2 3 4 0
     = Inr (NaN, PosInf)
   \<and> coordinate_update degenerate_X (Finite 1) 2 3 4 2 0
       (degenerate_heap @ [[Finite 5, Finite 7], [Finite 8, Finite 9], [Finite 3, Finite 1]],
        Finite 0)
     = Inr (degenerate_heap @ [[Finite 0, Finite 7], [Finite 0, Finite 0], [Finite 3, Finite 1]],
            Finite 5)
   \<and> (\<exists>b xj r. lasso_cda_cpp degenerate_heap degenerate_X 1 (Finite 1) 1000 (Finite (1 / 1000000))
                 = Inr (degenerate_heap @ [b, xj, r], 2) \<and> b ! 0 = Finite 0)"
proof -
  note t = zero_column_update [OF degenerate_valid, of "Finite 1" 1000 "Finite (1 / 1000000)",
      unfolded degenerate_dims shrink_dims(4,5)]
  have col: "column degenerate_heap degenerate_X 0 = [Finite 0, Finite 0]"
    using degenerate_valid(4) by (simp add: zero_column_def degenerate_dims replicate_2)
  have a: "threshold_args
       (degenerate_heap @ [[Finite 5, Finite 7], column degenerate_heap degenerate_X 0,
                           [Finite 3, Finite 1]]) (Finite 1) 2 3 4 0
     = Inr (NaN, PosInf)
   \<and> coordinate_update degenerate_X (Finite 1) 2 3 4 2 0
       (degenerate_heap @ [[Finite 5, Finite 7], [Finite 8, Finite 9], [Finite 3, Finite 1]],
        Finite 0)
     = Inr (degenerate_heap @ [[Finite 0, Finite 7], [Finite 0, Finite 0], [Finite 3, Finite 1]],
            Finite 5)"
    using t [THEN conjunct1, THEN spec, THEN spec, THEN spec, THEN spec, THEN mp,
        of "[Finite 5, Finite 7]" "[Finite 8, Finite 9]" "[Finite 3, Finite 1]" "Finite 0"]
    by (simp add: col inf_of_sign_def dmax_def dsub_def)
  show ?thesis using degenerate_valid a t [THEN conjunct2] by simp
qed

text \<open>
  C7. For \<open>X = [[1,0],[0,1]]\<close>, \<open>y = [3,-2]\<close>, \<open>lambda = 1\<close> and the default \<open>max_iter = 1000\<close>
  and \<open>tol = 1e-6\<close> the call returns \<open>[2, -1]\<close>, which is
  \<open>[soft_threshold 3 1, soft_threshold (-2) 1]\<close>, and the first sweep already ends with
  these coefficients.
\<close>

theorem shrinkage_scenario:
  "lasso_cda_cpp shrink_heap shrink_X 1 (Finite 1) 1000 (Finite (1 / 1000000))
   = Inr (shrink_heap @ [[Finite 2, Finite (- 1)], [Finite 0, Finite 1],
                         [Finite 1, Finite (- 1)]], 2)
   \<and> [Finite 2, Finite (- 1)]
     = [soft_threshold (Finite 3) (Finite 1), soft_threshold (Finite (- 2)) (Finite 1)]
   \<and> coordinate_loop shrink_X (Finite 1) 2 3 4 2 2 0
       (shrink_heap @ [[Finite 0, Finite 0], [Finite 0, Finite 0], [Finite 3, Finite (- 2)]],
        Finite 0)
     = Inr (shrink_heap @ [[Finite 2, Finite (- 1)], [Finite 0, Finite 1],
                           [Finite 1, Finite (- 1)]], Finite 2)"
  using shrink_run shrink_sweep by (simp add: soft_threshold_def dsub_def)

text \<open>
  C8. The coefficients depend on the values of the inputs only: two calls with the same
  \<open>lambda\<close>, \<open>max_iter\<close> and \<open>tol\<close>, made in any two heaps on matrices of the same
  dimensions and contents and on response vectors of the same contents, return
  vectors of the same contents, and leave the same contents in their other two
  local vectors. The second heap can be the one the first call leaves.
\<close>

theorem lasso_cda_cpp_deterministic:
  assumes "valid_matrix h X" and "dims_match h X y"
    and "valid_matrix h' X'" and "dims_match h' X' y'"
    and "nrow X' = nrow X" and "ncol X' = ncol X"
    and "h' ! sexp X' = h ! sexp X" and "h' ! y' = h ! y"
  shows "\<exists>b xj r. lasso_cda_cpp h X y lambda max_iter tol = Inr (h @ [b, xj, r], length h)
                \<and> lasso_cda_cpp h' X' y' lambda max_iter tol = Inr (h' @ [b, xj, r], length h')"
proof -
  have col: "column h' X' = column h X"
    using assms(5,7) by (intro ext) (simp add: column_def)
  have init: "initial h' X' y' = initial h X y"
    using assms(5,6,8) by (simp add: initial_def)
  let ?s = "cd_loop lambda (column h X) (ncol X) tol (nat max_iter) (initial h X y)"
  obtain b xj r mc where s: "?s = (b, xj, r, mc)" by (cases ?s) auto
  have "lasso_cda_cpp h X y lambda max_iter tol = Inr (h @ [b, xj, r], length h)"
    using lasso_cda_cpp_correct [OF assms(1,2), of lambda max_iter tol] s
    by (simp add: heap_of_def)
  moreover have "lasso_cda_cpp h' X' y' lambda max_iter tol = Inr (h' @ [b, xj, r], length h')"
    using lasso_cda_cpp_correct [OF assms(3,4), of lambda max_iter tol] s col init assms(6)
    by (simp add: heap_of_def)
  ultimately show ?thesis by blast
qed

theorem lasso_cda_cpp_deterministic_witness:
  "lasso_cda_cpp shrink_heap shrink_X 1 (Finite 1) 1000 (Finite (1 / 1000000))
     = Inr (shrink_heap @ [[Finite 2, Finite (- 1)], [Finite 0, Finite 1],
                           [Finite 1, Finite (- 1)]], 2)
   \<and> (\<exists>xj r. lasso_cda_cpp
          (shrink_heap @ [[Finite 2, Finite (- 1)], [Finite 0, Finite 1], [Finite 1, Finite (- 1)]])
          shrink_X 1 (Finite 1) 1000 (Finite (1 / 1000000))
       = Inr ((shrink_heap @ [[Finite 2, Finite (- 1)], [Finite 0, Finite 1],
                             [Finite 1, Finite (- 1)]]) @ [[Finite 2, Finite (- 1)], xj, r], 5))"
proof -
  let ?h' = "shrink_heap @ [[Finite 2, Finite (- 1)], [Finite 0, Finite 1], [Finite 1, Finite (- 1)]]"
  have v: "valid_matrix ?h' shrink_X" "dims_match ?h' shrink_X 1"
    by (simp_all add: valid_matrix_def dims_match_def shrink_heap_def shrink_X_def)
  have e: "nrow shrink_X = nrow shrink_X" "ncol shrink_X = ncol shrink_X"
    "?h' ! sexp shrink_X = shrink_heap ! sexp shrink_X" "?h' ! 1 = shrink_heap ! 1"
    by (simp_all add: shrink_heap_def shrink_X_def)
  have l: "length ?h' = 5" by (simp add: shrink_heap_def)
  show ?thesis
    using lasso_cda_cpp_deterministic [OF shrink_valid(1,2) v e, of "Finite 1" 1000
        "Finite (1 / 1000000)"] shrink_run
    by (auto simp: l)
qed

text \<open>
  C9. A call that returns leaves every object that was in the heap before it as it was,
  the buffers of \<open>X\<close> and \<open>y\<close> among them: the code writes to the three vectors it
  creates only.
\<close>

theorem lasso_cda_cpp_inputs_unchanged:
  assumes "lasso_cda_cpp h X y lambda max_iter tol = Inr (h', beta)"
  shows "take (length h) h' = h
       \<and> (sexp X < length h \<longrightarrow> h' ! sexp X = h ! sexp X)
       \<and> (y < length h \<longrightarrow> h' ! y = h ! y)"
proof -
  have t: "take (length h) h' = h" using lasso_cda_cpp_frame [OF assms] by simp
  have "h' ! a = h ! a" if a: "a < length h" for a
    using nth_take [OF a, of h'] t by simp
  then show ?thesis using t by simp
qed

theorem lasso_cda_cpp_inputs_unchanged_witness:
  "lasso_cda_cpp shrink_heap shrink_X 1 (Finite 1) 1000 (Finite (1 / 1000000))
   = Inr (shrink_heap @ [[Finite 2, Finite (- 1)], [Finite 0, Finite 1],
                         [Finite 1, Finite (- 1)]], 2)
   \<and> take (length shrink_heap)
        (shrink_heap @ [[Finite 2, Finite (- 1)], [Finite 0, Finite 1], [Finite 1, Finite (- 1)]])
     = shrink_heap
   \<and> sexp shrink_X < length shrink_heap
   \<and> (shrink_heap @ [[Finite 2, Finite (- 1)], [Finite 0, Finite 1], [Finite 1, Finite (- 1)]])
        ! sexp shrink_X = shrink_heap ! sexp shrink_X
   \<and> 1 < length shrink_heap
   \<and> (shrink_heap @ [[Finite 2, Finite (- 1)], [Finite 0, Finite 1], [Finite 1, Finite (- 1)]])
        ! 1 = shrink_heap ! 1"
proof -
  have a: "sexp shrink_X < length shrink_heap" "1 < length shrink_heap"
    by (simp_all add: shrink_heap_def shrink_X_def)
  show ?thesis
    using lasso_cda_cpp_inputs_unchanged [OF shrink_run] shrink_run a by simp
qed

text \<open>
  C10. When \<open>max_iter \<le> 0\<close> no sweep is made: whatever \<open>X\<close>, \<open>y\<close>, \<open>lambda\<close> and \<open>tol\<close> are,
  the call returns the zero vector of length \<open>p\<close>, and the heap it leaves holds the
  three local vectors as they were created.
\<close>

theorem lasso_cda_cpp_no_sweep:
  assumes "max_iter \<le> 0"
  shows "\<exists>r. lasso_cda_cpp h X y lambda max_iter tol
              = Inr (h @ [replicate (ncol X) (Finite 0), replicate (nrow X) (Finite 0), r],
                     length h)
            \<and> (y < length h \<longrightarrow> r = h ! y)"
  using assms
  by (simp add: lasso_cda_cpp_def alloc_def Let_def sweep_loop.simps nth_append)

theorem lasso_cda_cpp_no_sweep_witness:
  "(0::int) \<le> 0 \<and> (- 3::int) \<le> 0
   \<and> lasso_cda_cpp shrink_heap shrink_X 1 (Finite 1) 0 (Finite (1 / 1000000))
     = Inr (shrink_heap @ [[Finite 0, Finite 0], [Finite 0, Finite 0], [Finite 3, Finite (- 2)]], 2)
   \<and> lasso_cda_cpp shrink_heap shrink_X 1 (Finite 1) (- 3) (Finite (1 / 1000000))
     = Inr (shrink_heap @ [[Finite 0, Finite 0], [Finite 0, Finite 0], [Finite 3, Finite (- 2)]], 2)"
proof -
  have z: "(0::int) \<le> 0" and m: "(- 3::int) \<le> 0" by simp_all
  have y: "(1::nat) < length shrink_heap" "shrink_heap ! 1 = [Finite 3, Finite (- 2)]"
    by (simp_all add: shrink_heap_def)
  show ?thesis
    using lasso_cda_cpp_no_sweep [OF z, of shrink_heap shrink_X 1 "Finite 1" "Finite (1 / 1000000)"]
      lasso_cda_cpp_no_sweep [OF m, of shrink_heap shrink_X 1 "Finite 1" "Finite (1 / 1000000)"]
      y
    by (auto simp: shrink_dims replicate_2)
qed

end
